theory Spec2Isabelle
  imports Main
begin

section \<open>Time, records and errors\<close>

text \<open>
  A Go \<^verbatim>\<open>time.Time\<close> is modelled as the number of nanoseconds since Go's zero time
  (January 1, year 1, 00:00 UTC), an unbounded integer; a \<^verbatim>\<open>time.Duration\<close> is a number
  of nanoseconds stored in an int64.
\<close>

type_synonym Time = int
type_synonym Duration = int

definition minDuration :: Duration where
  "minDuration = - (2 ^ 63)"

definition maxDuration :: Duration where
  "maxDuration = 2 ^ 63 - 1"

text \<open>
  \<^verbatim>\<open>t.Sub(u)\<close>: the difference, saturated at the largest and the smallest Duration.
\<close>

definition Sub :: "Time \<Rightarrow> Time \<Rightarrow> Duration" where
  "Sub t u =
     (if maxDuration < t - u then maxDuration
      else if t - u < minDuration then minDuration
      else t - u)"

text \<open>
  \<^verbatim>\<open>t.Truncate(d)\<close>: \<^verbatim>\<open>t\<close> rounded down to a multiple of \<^verbatim>\<open>d\<close> since the zero time;
  for \<^verbatim>\<open>d <= 0\<close> the library returns \<^verbatim>\<open>t\<close> unchanged.
\<close>

definition Truncate :: "Time \<Rightarrow> Duration \<Rightarrow> Time" where
  "Truncate t d = (if d \<le> 0 then t else t - t mod d)"

text \<open>
  Modelled from the spec: the package \<^verbatim>\<open>model\<close> (\<^verbatim>\<open>model.CalibrationRead\<close>,
  \<^verbatim>\<open>model.Meal\<close>) is not among the sources. The spec's TimestampedRecord is "any record
  exposing a point in time; content otherwise opaque to the buffer": the point in time
  that \<^verbatim>\<open>GetTime()\<close> returns, and a payload.
\<close>

record TimestampedRecord =
  GetTime :: Time
  Payload :: nat

type_synonym CalibrationRead = TimestampedRecord
type_synonym Meal = TimestampedRecord

text \<open>The zero value that \<^verbatim>\<open>make\<close> fills a fresh slice with.\<close>

definition zeroRecord :: TimestampedRecord where
  "zeroRecord = \<lparr>GetTime = 0, Payload = 0\<rparr>"

text \<open>
  A Go \<^verbatim>\<open>error\<close> value: \<^verbatim>\<open>glukitio.ErrShortWrite\<close>, or any other error a store reports.
  A run-time panic is a value of its own type; every function that can panic returns
  \<open>panic + result\<close>.
\<close>

datatype error = ErrShortWrite | StoreFailure string

datatype panic = IndexOutOfRange | SliceBoundsOutOfRange | NilPointerDereference

section \<open>The batch store behind a CalibrationReadStreamer\<close>

text \<open>
  \<^verbatim>\<open>glukitio.CalibrationBatchWriter\<close> is an interface; its implementations are outside
  the streamer. It is taken as a parameter: a method table over a writer state \<open>'w\<close>.
  \<^verbatim>\<open>WriteCalibrationBatch(p) (n int, err error)\<close> returns the count and the error and
  leaves the writer in a new state; \<^verbatim>\<open>Flush() error\<close> likewise. The writer is assumed
  not to write into the slice it is handed.
\<close>

record 'w CalibrationBatchWriter =
  WriteCalibrationBatch :: "'w \<Rightarrow> CalibrationRead list \<Rightarrow> (int \<times> error option) \<times> 'w"
  FlushWriter :: "'w \<Rightarrow> error option \<times> 'w"

section \<open>CalibrationReadStreamer (calibrationstreamer.go)\<close>

record 'w CalibrationReadStreamer =
  buf :: "CalibrationRead list"
  n :: int
  wr :: 'w
  t :: Time
  d :: Duration
  err :: "error option"

text \<open>
  The built-in \<^verbatim>\<open>copy(dst, src)\<close>: it copies \<open>min (len dst) (len src)\<close> elements to the
  front of \<open>dst\<close> and returns that number.
\<close>

definition copy :: "'a list \<Rightarrow> 'a list \<Rightarrow> 'a list \<times> nat" where
  "copy dst src =
     (let k = min (length dst) (length src) in (take k src @ drop k dst, k))"

text \<open>
  The two statements \<^verbatim>\<open>n := copy(b.buf[b.n:], src); b.n += n\<close> (lines 43-44 and 60-61).
  The slice expression \<^verbatim>\<open>b.buf[b.n:]\<close> panics unless \<open>0 \<le> b.n \<le> len(b.buf)\<close>; the copy
  writes through the slice into \<^verbatim>\<open>b.buf\<close> from index \<^verbatim>\<open>b.n\<close> on.
\<close>

definition copyToBuf ::
  "'w CalibrationReadStreamer \<Rightarrow> CalibrationRead list \<Rightarrow> panic + ('w CalibrationReadStreamer \<times> nat)"
where
  "copyToBuf b src =
     (if n b < 0 \<or> int (length (buf b)) < n b then Inl SliceBoundsOutOfRange
      else
        (case copy (drop (nat (n b)) (buf b)) src of
           (tl', k) \<Rightarrow>
             Inr (b\<lparr>buf := take (nat (n b)) (buf b) @ tl', n := n b + int k\<rparr>, k)))"

definition resetFirstReadOfBatch ::
  "'w CalibrationReadStreamer \<Rightarrow> CalibrationRead \<Rightarrow> 'w CalibrationReadStreamer"
where
  "resetFirstReadOfBatch b r = b\<lparr>t := Truncate (GetTime r) (d b)\<rparr>"

text \<open>
  \<^verbatim>\<open>NewCalibrationReadStreamerDuration\<close>. The constant \<^verbatim>\<open>BUFFER_SIZE\<close> is declared in a file
  of the package that is not among the sources, so it is a parameter here. The fields
  that \<^verbatim>\<open>new\<close> leaves at their zero value are \<open>n = 0\<close>, the zero time and the nil error.
\<close>

definition NewCalibrationReadStreamerDuration ::
  "nat \<Rightarrow> 'w \<Rightarrow> Duration \<Rightarrow> 'w CalibrationReadStreamer"
where
  "NewCalibrationReadStreamerDuration BUFFER_SIZE w bufferDuration =
     \<lparr>buf = replicate BUFFER_SIZE zeroRecord, n = 0, wr = w, t = 0,
      d = bufferDuration, err = None\<rparr>"

text \<open>
  \<^verbatim>\<open>Flush\<close> (lines 82-104). The result is the returned error and the streamer afterwards.
  \<^verbatim>\<open>b.buf[0:b.n]\<close> panics unless \<open>0 \<le> b.n \<le> len(b.buf)\<close>. The compaction
  \<^verbatim>\<open>copy(b.buf[0:b.n-n], b.buf[n:b.n])\<close> copies within one array; both slices have
  \<open>b.n - n\<close> elements, and \<^verbatim>\<open>copy\<close> handles the overlap.
\<close>

definition Flush ::
  "'w CalibrationBatchWriter \<Rightarrow> 'w CalibrationReadStreamer \<Rightarrow>
     panic + (error option \<times> 'w CalibrationReadStreamer)"
where
  "Flush W b =
     (case err b of
        Some e \<Rightarrow> Inr (Some e, b)
      | None \<Rightarrow>
          if n b = 0 then Inr (None, b)
          else if n b < 0 \<or> int (length (buf b)) < n b then Inl SliceBoundsOutOfRange
          else
            (case WriteCalibrationBatch W (wr b) (take (nat (n b)) (buf b)) of
               ((m, e0), w') \<Rightarrow>
                 (case (if m < 1 \<and> e0 = None then Some ErrShortWrite else e0) of
                    Some e \<Rightarrow>
                      Inr (Some e,
                        b\<lparr>buf :=
                            (if 0 < m \<and> m < n b
                             then fst (copy (take (nat (n b - m)) (buf b))
                                            (drop (nat m) (take (nat (n b)) (buf b))))
                                  @ drop (nat (n b - m)) (buf b)
                             else buf b),
                          n := n b - m, wr := w', err := Some e\<rparr>)
                  | None \<Rightarrow> Inr (None, b\<lparr>n := 0, wr := w'\<rparr>))))"

text \<open>
  The loop of \<^verbatim>\<open>WriteCalibrations\<close> (lines 38-58) and the statements after it (lines
  60-64). \<open>p\<close> is the whole input, \<open>i\<close> the start of the current batch, \<open>j\<close> the index of
  the record the loop is at, \<open>c # cs\<close> the records from index \<open>j\<close> on (so \<open>c\<close> is
  \<^verbatim>\<open>p[j]\<close>, and \<^verbatim>\<open>p[i]\<close> after \<^verbatim>\<open>i = j\<close> is \<open>c\<close> too), \<open>nn\<close> the count so far. The result
  is the pair \<^verbatim>\<open>(nn, err)\<close> and the streamer afterwards.
\<close>

fun WriteCalibrations_loop ::
  "'w CalibrationBatchWriter \<Rightarrow> 'w CalibrationReadStreamer \<Rightarrow> CalibrationRead list \<Rightarrow>
     nat \<Rightarrow> nat \<Rightarrow> CalibrationRead list \<Rightarrow> int \<Rightarrow>
     panic + ((int \<times> error option) \<times> 'w CalibrationReadStreamer)"
where
  "WriteCalibrations_loop W b p i j [] nn =
     (case copyToBuf b (drop i p) of
        Inl pn \<Rightarrow> Inl pn
      | Inr (b', k) \<Rightarrow> Inr ((nn + int k, None), b'))"
| "WriteCalibrations_loop W b p i j (c # cs) nn =
     (if d b \<le> Sub (GetTime c) (t b) then
        (case copyToBuf b (take (j - i) (drop i p)) of
           Inl pn \<Rightarrow> Inl pn
         | Inr (b1, k) \<Rightarrow>
             (case Flush W b1 of
                Inl pn \<Rightarrow> Inl pn
              | Inr (_, b2) \<Rightarrow>
                  (case err b2 of
                     Some e \<Rightarrow> Inr ((nn + int k, Some e), b2)
                   | None \<Rightarrow>
                       WriteCalibrations_loop W (resetFirstReadOfBatch b2 c) p j (Suc j) cs
                         (nn + int k))))
      else WriteCalibrations_loop W b p i (Suc j) cs nn)"

text \<open>
  \<^verbatim>\<open>WriteCalibrations\<close> (lines 31-65): with an empty buffer it reads \<^verbatim>\<open>p[0]\<close> first,
  which panics on an empty \<open>p\<close>.
\<close>

definition WriteCalibrations ::
  "'w CalibrationBatchWriter \<Rightarrow> 'w CalibrationReadStreamer \<Rightarrow> CalibrationRead list \<Rightarrow>
     panic + ((int \<times> error option) \<times> 'w CalibrationReadStreamer)"
where
  "WriteCalibrations W b p =
     (if n b = 0 then
        (case p of
           [] \<Rightarrow> Inl IndexOutOfRange
         | c # _ \<Rightarrow> WriteCalibrations_loop W (resetFirstReadOfBatch b c) p 0 0 p 0)
      else WriteCalibrations_loop W b p 0 0 p 0)"

definition WriteCalibration ::
  "'w CalibrationBatchWriter \<Rightarrow> 'w CalibrationReadStreamer \<Rightarrow> CalibrationRead \<Rightarrow>
     panic + ((int \<times> error option) \<times> 'w CalibrationReadStreamer)"
where
  "WriteCalibration W b c =
     (case err b of
        Some e \<Rightarrow> Inr ((0, Some e), b)
      | None \<Rightarrow> WriteCalibrations W b [c])"

definition Close ::
  "'w CalibrationBatchWriter \<Rightarrow> 'w CalibrationReadStreamer \<Rightarrow>
     panic + (error option \<times> 'w CalibrationReadStreamer)"
where
  "Close W b =
     (case Flush W b of
        Inl pn \<Rightarrow> Inl pn
      | Inr (Some e, b') \<Rightarrow> Inr (Some e, b')
      | Inr (None, b') \<Rightarrow>
          (case FlushWriter W (wr b') of (e, w') \<Rightarrow> Inr (e, b'\<lparr>wr := w'\<rparr>)))"

definition Buffered :: "'w CalibrationReadStreamer \<Rightarrow> int" where
  "Buffered b = n b"

text \<open>
  \<^verbatim>\<open>b.buf[0:b.n]\<close>, the records that \<^verbatim>\<open>Flush\<close> submits to the store.
\<close>

definition pendingBatch :: "'w CalibrationReadStreamer \<Rightarrow> CalibrationRead list" where
  "pendingBatch b = take (nat (n b)) (buf b)"

section \<open>MealStreamer\<close>

text \<open>
  Modelled from the spec: the package \<^verbatim>\<open>container\<close> is not among the sources. The spec
  describes \<^verbatim>\<open>container.ImmutableList\<close> as "an immutable, structurally-shared list":
  \<^verbatim>\<open>NewImmutableList(next, v)\<close> puts \<open>v\<close> in front of \<open>next\<close>, the nil pointer is the empty
  list, and \<^verbatim>\<open>ReverseList\<close> returns the reversed list with its size (on the nil pointer,
  nil and 0). A value of this type is never changed after its construction, so it is a
  HOL list.
\<close>

definition NewImmutableList :: "Meal list \<Rightarrow> Meal \<Rightarrow> Meal list" where
  "NewImmutableList next v = v # next"

definition ReverseList :: "Meal list \<Rightarrow> Meal list \<times> nat" where
  "ReverseList l = (rev l, length l)"

text \<open>
  \<^verbatim>\<open>glukitio.MealBatchWriter\<close> is an interface whose methods return the writer to use
  next: \<^verbatim>\<open>WriteMealBatch(p) (MealBatchWriter, error)\<close> and \<^verbatim>\<open>Flush() (MealBatchWriter, error)\<close>.
  A writer value is a handle \<open>'w\<close>; what the methods do to the store behind the handles
  is a change of the store's state \<open>'s\<close>.
\<close>

record ('w, 's) MealBatchWriter =
  WriteMealBatch :: "'w \<Rightarrow> Meal list \<Rightarrow> 's \<Rightarrow> ('w \<times> error option) \<times> 's"
  FlushMealWriter :: "'w \<Rightarrow> 's \<Rightarrow> ('w \<times> error option) \<times> 's"

text \<open>
  The struct. No statement of the file assigns to a field of an existing MealStreamer
  (\<^verbatim>\<open>newMealStreamerDuration\<close> fills a new one), so a streamer is a value. \<^verbatim>\<open>tailVal\<close>
  is a pointer to a \<^verbatim>\<open>model.Meal\<close> variable: the address of a cell, or nil.
\<close>

record 'w MealStreamer =
  head :: "Meal list"
  tailVal :: "nat option"
  mwr :: 'w
  md :: Duration

text \<open>
  What a call can change besides its results: the cells that \<^verbatim>\<open>tailVal\<close> pointers point
  to (a cell's address is its index) and the state of the store.
\<close>

record 's World =
  cells :: "Meal list"
  store :: 's

definition newMealStreamerDuration ::
  "Meal list \<Rightarrow> nat option \<Rightarrow> 'w \<Rightarrow> Duration \<Rightarrow> 'w MealStreamer"
where
  "newMealStreamerDuration hd0 tv w bufferDuration =
     \<lparr>head = hd0, tailVal = tv, mwr = w, md = bufferDuration\<rparr>"

definition NewMealStreamerDuration :: "'w \<Rightarrow> Duration \<Rightarrow> 'w MealStreamer" where
  "NewMealStreamerDuration w bufferDuration =
     newMealStreamerDuration [] None w bufferDuration"

text \<open>
  \<^verbatim>\<open>ListToArrayOfMealReads\<close>: \<open>size\<close> times, the value at the cursor, then the next node;
  reading the value of a nil cursor panics.
\<close>

fun ListToArrayOfMealReads :: "Meal list \<Rightarrow> nat \<Rightarrow> panic + Meal list" where
  "ListToArrayOfMealReads cursor 0 = Inr []"
| "ListToArrayOfMealReads [] (Suc k) = Inl NilPointerDereference"
| "ListToArrayOfMealReads (v # next) (Suc k) =
     (case ListToArrayOfMealReads next k of
        Inl pn \<Rightarrow> Inl pn
      | Inr r \<Rightarrow> Inr (v # r))"

text \<open>
  \<^verbatim>\<open>Flush\<close> of the MealStreamer: the returned pair \<^verbatim>\<open>(s, err)\<close>, where \<open>s\<close> is \<open>None\<close> for
  the nil pointer, and the world afterwards.
\<close>

definition MealFlush ::
  "('w, 's) MealBatchWriter \<Rightarrow> 'w MealStreamer \<Rightarrow> 's World \<Rightarrow>
     panic + (('w MealStreamer option \<times> error option) \<times> 's World)"
where
  "MealFlush M b wld =
     (case ReverseList (head b) of
        (r, sz) \<Rightarrow>
          (case ListToArrayOfMealReads r sz of
             Inl pn \<Rightarrow> Inl pn
           | Inr batch \<Rightarrow>
               if 0 < length batch then
                 (case WriteMealBatch M (mwr b) batch (store wld) of
                    ((innerWriter, Some e), st') \<Rightarrow> Inr ((None, Some e), wld\<lparr>store := st'\<rparr>)
                  | ((innerWriter, None), st') \<Rightarrow>
                      Inr ((Some (newMealStreamerDuration [] None innerWriter (md b)), None),
                           wld\<lparr>store := st'\<rparr>))
               else Inr ((Some (newMealStreamerDuration [] None (mwr b) (md b)), None), wld)))"

text \<open>
  The loop of \<^verbatim>\<open>WriteMeals\<close>, \<^verbatim>\<open>for _, c := range p\<close>. Every iteration has a variable
  \<^verbatim>\<open>c\<close> of its own, holding the element of that iteration. The loop body takes the
  variable's address, \<^verbatim>\<open>&c\<close>, so each iteration's \<^verbatim>\<open>c\<close> is a new cell, at the address
  \<open>length (cells wld)\<close>; \<^verbatim>\<open>s.tailVal.GetTime()\<close> reads the cell that \<^verbatim>\<open>s.tailVal\<close> points to.
  \<^verbatim>\<open>NewImmutableList(.., c)\<close> takes the value of \<^verbatim>\<open>c\<close>. A method call on a nil pointer that
  reads a field panics.
\<close>

fun WriteMeals_loop ::
  "('w, 's) MealBatchWriter \<Rightarrow> 'w MealStreamer \<Rightarrow> Meal list \<Rightarrow> 's World \<Rightarrow>
     panic + (('w MealStreamer option \<times> error option) \<times> 's World)"
where
  "WriteMeals_loop M s [] wld = Inr ((Some s, None), wld)"
| "WriteMeals_loop M s (x # xs) wld =
     (let a = length (cells wld); wld1 = wld\<lparr>cells := cells wld @ [x]\<rparr> in
      if head s = [] then
        WriteMeals_loop M
          (newMealStreamerDuration (NewImmutableList [] x) (Some a) (mwr s) (md s)) xs wld1
      else
        (case tailVal s of
           None \<Rightarrow> Inl NilPointerDereference
         | Some tv \<Rightarrow>
             if length (cells wld1) \<le> tv then Inl NilPointerDereference
             else if md s \<le> Sub (GetTime x) (GetTime (cells wld1 ! tv)) then
               (case MealFlush M s wld1 of
                  Inl pn \<Rightarrow> Inl pn
                | Inr ((s', Some e), wld2) \<Rightarrow> Inr ((s', Some e), wld2)
                | Inr ((None, None), wld2) \<Rightarrow> Inl NilPointerDereference
                | Inr ((Some s1, None), wld2) \<Rightarrow>
                    WriteMeals_loop M
                      (newMealStreamerDuration (NewImmutableList [] x) (Some a) (mwr s1) (md s1))
                      xs wld2)
             else
               WriteMeals_loop M
                 (newMealStreamerDuration (NewImmutableList (head s) x) (tailVal s) (mwr s) (md s))
                 xs wld1))"

text \<open>
  \<^verbatim>\<open>WriteMeals\<close>: the copy of the receiver (line 42; \<^verbatim>\<open>err\<close> is nil there, so the return
  of line 44 is never taken), then the loop.
\<close>

definition WriteMeals ::
  "('w, 's) MealBatchWriter \<Rightarrow> 'w MealStreamer \<Rightarrow> Meal list \<Rightarrow> 's World \<Rightarrow>
     panic + (('w MealStreamer option \<times> error option) \<times> 's World)"
where
  "WriteMeals M b p wld =
     WriteMeals_loop M (newMealStreamerDuration (head b) (tailVal b) (mwr b) (md b)) p wld"

definition WriteMeal ::
  "('w, 's) MealBatchWriter \<Rightarrow> 'w MealStreamer \<Rightarrow> Meal \<Rightarrow> 's World \<Rightarrow>
     panic + (('w MealStreamer option \<times> error option) \<times> 's World)"
where
  "WriteMeal M b c wld = WriteMeals M b [c] wld"

definition MealClose ::
  "('w, 's) MealBatchWriter \<Rightarrow> 'w MealStreamer \<Rightarrow> 's World \<Rightarrow>
     panic + (('w MealStreamer option \<times> error option) \<times> 's World)"
where
  "MealClose M b wld =
     (case MealFlush M b wld of
        Inl pn \<Rightarrow> Inl pn
      | Inr ((g, Some e), wld1) \<Rightarrow> Inr ((g, Some e), wld1)
      | Inr ((None, None), wld1) \<Rightarrow> Inl NilPointerDereference
      | Inr ((Some g, None), wld1) \<Rightarrow>
          (case FlushMealWriter M (mwr g) (store wld1) of
             ((innerWriter, Some e), st') \<Rightarrow>
               Inr ((Some (newMealStreamerDuration (head g) (tailVal g) innerWriter (md b)), Some e),
                    wld1\<lparr>store := st'\<rparr>)
           | ((innerWriter, None), st') \<Rightarrow> Inr ((Some g, None), wld1\<lparr>store := st'\<rparr>)))"

text \<open>
  \<^verbatim>\<open>*s.tailVal\<close>: the meal in the cell that \<^verbatim>\<open>s.tailVal\<close> points to.
\<close>

definition tailValue :: "'w MealStreamer \<Rightarrow> 's World \<Rightarrow> Meal option" where
  "tailValue s wld =
     (case tailVal s of
        None \<Rightarrow> None
      | Some a \<Rightarrow> if a < length (cells wld) then Some (cells wld ! a) else None)"

section \<open>A store that records its calls\<close>

text \<open>
  A store for running the streamers on concrete inputs: it records every call it
  receives, answers a batch write with the next scripted reply, and, when the script is
  used up, commits the whole batch without error. A flush is answered likewise.
\<close>

datatype storeCall = BatchWritten "TimestampedRecord list" | Flushed

record ScriptedStore =
  calls :: "storeCall list"
  writeReplies :: "(int \<times> error option) list"
  flushReplies :: "error option list"

definition scriptedWrite ::
  "ScriptedStore \<Rightarrow> TimestampedRecord list \<Rightarrow> (int \<times> error option) \<times> ScriptedStore"
where
  "scriptedWrite s p =
     (case writeReplies s of
        [] \<Rightarrow> ((int (length p), None), s\<lparr>calls := calls s @ [BatchWritten p]\<rparr>)
      | r # rs \<Rightarrow> (r, s\<lparr>calls := calls s @ [BatchWritten p], writeReplies := rs\<rparr>))"

definition scriptedFlush :: "ScriptedStore \<Rightarrow> error option \<times> ScriptedStore" where
  "scriptedFlush s =
     (case flushReplies s of
        [] \<Rightarrow> (None, s\<lparr>calls := calls s @ [Flushed]\<rparr>)
      | r # rs \<Rightarrow> (r, s\<lparr>calls := calls s @ [Flushed], flushReplies := rs\<rparr>))"

definition scriptedWriter :: "ScriptedStore CalibrationBatchWriter" where
  "scriptedWriter = \<lparr>WriteCalibrationBatch = scriptedWrite, FlushWriter = scriptedFlush\<rparr>"

definition scriptedMealWriter :: "(unit, ScriptedStore) MealBatchWriter" where
  "scriptedMealWriter =
     \<lparr>WriteMealBatch = (\<lambda>w p s. case scriptedWrite s p of ((m, e), s') \<Rightarrow> ((w, e), s')),
      FlushMealWriter = (\<lambda>w s. case scriptedFlush s of (e, s') \<Rightarrow> ((w, e), s'))\<rparr>"

definition emptyStore :: ScriptedStore where
  "emptyStore = \<lparr>calls = [], writeReplies = [], flushReplies = []\<rparr>"

definition batches :: "ScriptedStore \<Rightarrow> TimestampedRecord list list" where
  "batches s = concat (map (\<lambda>c. case c of BatchWritten p \<Rightarrow> [p] | Flushed \<Rightarrow> []) (calls s))"

text \<open>A record at \<open>m\<close> minutes after the zero time, and one hour.\<close>

definition minute :: Duration where
  "minute = 60000000000"

definition hour :: Duration where
  "hour = 60 * minute"

definition at :: "int \<Rightarrow> TimestampedRecord" where
  "at m = \<lparr>GetTime = m * minute, Payload = 0\<rparr>"

section \<open>Grid-aligned windows, in the spec's words\<close>

text \<open>
  The spec's grid-aligned anchoring (section 4.1), written as a function on the input
  alone: "on starting a new window, the anchor is the first record's timestamp truncated
  down to the nearest multiple of duration. A record triggers a crossing when
  record.time - anchor >= duration"; a crossing closes the run accumulated so far,
  without the triggering record, and "opens a fresh grid-aligned window for the
  remaining records". \<open>gridSplit\<close> walks the records with the anchor and the records of
  the open window; the result lists the windows with their anchors, the open one last.
\<close>

fun gridSplit ::
  "Duration \<Rightarrow> Time \<Rightarrow> CalibrationRead list \<Rightarrow> CalibrationRead list \<Rightarrow>
     (Time \<times> CalibrationRead list) list"
where
  "gridSplit dur anchor cur [] = [(anchor, cur)]"
| "gridSplit dur anchor cur (c # cs) =
     (if dur \<le> GetTime c - anchor
      then (anchor, cur) # gridSplit dur (Truncate (GetTime c) dur) [c] cs
      else gridSplit dur anchor (cur @ [c]) cs)"

definition gridWindows ::
  "Duration \<Rightarrow> CalibrationRead list \<Rightarrow> (Time \<times> CalibrationRead list) list"
where
  "gridWindows dur p =
     (case p of [] \<Rightarrow> [] | c # _ \<Rightarrow> gridSplit dur (Truncate (GetTime c) dur) [] p)"

text \<open>
  The store takes the batches one after the other, each without an error and with a
  count of at least one (what \<^verbatim>\<open>Flush\<close> takes for success); the result is the store's
  state after the last of them.
\<close>

fun storeAccepts ::
  "'w CalibrationBatchWriter \<Rightarrow> 'w \<Rightarrow> CalibrationRead list list \<Rightarrow> 'w option"
where
  "storeAccepts W w [] = Some w"
| "storeAccepts W w (xs # xss) =
     (case WriteCalibrationBatch W w xs of
        ((m, e), w') \<Rightarrow> if e = None \<and> 1 \<le> m then storeAccepts W w' xss else None)"

section \<open>First-arrival windows, in the spec's words\<close>

text \<open>
  The spec's first-arrival anchoring (section 4.1): "the anchor is the timestamp of the
  first record placed into the currently open window. A new record triggers a boundary
  crossing when record.time - anchor >= duration. On crossing, the existing window is
  flushed (not including the new record), and a brand-new window opens with the anchor
  reset to the new record's timestamp." The windows with their anchors, the open one
  last; and a store that takes the batches one after the other without an error.
\<close>

fun arrivalSplit ::
  "Duration \<Rightarrow> Time \<Rightarrow> Meal list \<Rightarrow> Meal list \<Rightarrow> (Time \<times> Meal list) list"
where
  "arrivalSplit dur anchor cur [] = [(anchor, cur)]"
| "arrivalSplit dur anchor cur (c # cs) =
     (if dur \<le> GetTime c - anchor
      then (anchor, cur) # arrivalSplit dur (GetTime c) [c] cs
      else arrivalSplit dur anchor (cur @ [c]) cs)"

definition arrivalWindows :: "Duration \<Rightarrow> Meal list \<Rightarrow> (Time \<times> Meal list) list" where
  "arrivalWindows dur p =
     (case p of [] \<Rightarrow> [] | c # cs \<Rightarrow> arrivalSplit dur (GetTime c) [c] cs)"

fun mealStoreAccepts ::
  "('w, 's) MealBatchWriter \<Rightarrow> 'w \<Rightarrow> 's \<Rightarrow> Meal list list \<Rightarrow> ('w \<times> 's) option"
where
  "mealStoreAccepts M w st [] = Some (w, st)"
| "mealStoreAccepts M w st (xs # xss) =
     (case WriteMealBatch M w xs st of
        ((w', None), st') \<Rightarrow> mealStoreAccepts M w' st' xss
      | ((w', Some e), st') \<Rightarrow> None)"

section \<open>A whole stream\<close>

text \<open>
  A whole stream of calibration reads against the recording store: a fresh streamer, one
  write call with all the records, then the close; the result is the last error and the
  batches the store has received.
\<close>

definition calibrationRun ::
  "nat \<Rightarrow> Duration \<Rightarrow> CalibrationRead list \<Rightarrow> panic + (error option \<times> CalibrationRead list list)"
where
  "calibrationRun BUFFER_SIZE dur p =
     (case WriteCalibrations scriptedWriter
             (NewCalibrationReadStreamerDuration BUFFER_SIZE emptyStore dur) p of
        Inl pn \<Rightarrow> Inl pn
      | Inr ((nn, Some e), b) \<Rightarrow> Inr (Some e, batches (wr b))
      | Inr ((nn, None), b) \<Rightarrow>
          (case Close scriptedWriter b of
             Inl pn \<Rightarrow> Inl pn
           | Inr (e, b') \<Rightarrow> Inr (e, batches (wr b'))))"

section \<open>Example states\<close>

text \<open>The record at \<open>k\<close> nanoseconds after the zero time.\<close>

definition tick :: "nat \<Rightarrow> TimestampedRecord" where
  "tick k = \<lparr>GetTime = int k, Payload = k\<rparr>"

text \<open>
  A store failure; a CalibrationReadStreamer with a buffer of four after a write of the
  records at 00:00, 00:10 and 00:20, and the same after a flush that failed; a
  MealStreamer after \<^verbatim>\<open>WriteMeal\<close> calls with the meals of 00:00 and 00:30, and its world.
\<close>

definition storeDown :: error where
  "storeDown = StoreFailure ''datastore unavailable''"

definition threeBuffered :: "ScriptedStore \<Rightarrow> ScriptedStore CalibrationReadStreamer" where
  "threeBuffered s =
     \<lparr>buf = [at 0, at 10, at 20, zeroRecord], n = 3, wr = s, t = 0, d = hour, err = None\<rparr>"

definition faulted :: "ScriptedStore CalibrationReadStreamer" where
  "faulted =
     (threeBuffered (emptyStore\<lparr>calls := [BatchWritten [at 0, at 10, at 20]]\<rparr>))
       \<lparr>err := Some storeDown\<rparr>"

definition twoMeals :: "unit MealStreamer" where
  "twoMeals = \<lparr>head = [at 30, at 0], tailVal = Some 0, mwr = (), md = hour\<rparr>"

definition mealWorld :: "ScriptedStore \<Rightarrow> ScriptedStore World" where
  "mealWorld s = \<lparr>cells = [at 0, at 30], store = s\<rparr>"

section \<open>Auxiliary facts\<close>

lemma ListToArrayOfMealReads_all: "ListToArrayOfMealReads xs (length xs) = Inr xs"
  by (induction xs) auto

lemma Flush_faulted: "err b = Some e \<Longrightarrow> Flush W b = Inr (Some e, b)"
  by (simp add: Flush_def)

lemma copyToBuf_err: "copyToBuf b src = Inr (b', k) \<Longrightarrow> err b' = err b"
  by (auto simp: copyToBuf_def split: if_splits prod.splits)

lemma loop_keeps_fault:
  "err b = Some e \<Longrightarrow> WriteCalibrations_loop W b p i j cs nn = Inr (r, b') \<Longrightarrow> err b' = Some e"
proof (induction cs arbitrary: b i j nn)
  case Nil
  then show ?case by (auto split: sum.splits dest: copyToBuf_err)
next
  case (Cons c cs)
  show ?case
  proof (cases "d b \<le> Sub (GetTime c) (t b)")
    case True
    from Cons.prems True show ?thesis
      by (auto split: sum.splits prod.splits option.splits simp: Flush_faulted dest!: copyToBuf_err)
  next
    case False
    with Cons show ?thesis by simp
  qed
qed

lemma WriteCalibrations_keeps_fault:
  assumes "err b = Some e" and "WriteCalibrations W b p = Inr (r, b')"
  shows "err b' = Some e"
proof (cases "n b = 0")
  case True
  with assms(2) obtain c cs where p: "p = c # cs"
    and run: "WriteCalibrations_loop W (resetFirstReadOfBatch b c) p 0 0 p 0 = Inr (r, b')"
    by (auto simp: WriteCalibrations_def split: list.splits)
  have "err (resetFirstReadOfBatch b c) = Some e"
    using assms(1) by (simp add: resetFirstReadOfBatch_def)
  then show ?thesis using run by (rule loop_keeps_fault)
next
  case False
  with assms(2) have "WriteCalibrations_loop W b p 0 0 p 0 = Inr (r, b')"
    by (simp add: WriteCalibrations_def)
  with assms(1) show ?thesis by (rule loop_keeps_fault)
qed

lemma compact_front:
  assumes "k \<le> m" and "m \<le> length xs"
  shows "take (m - k) (fst (copy (take (m - k) xs) (drop k (take m xs))) @ drop (m - k) xs)
         = drop k (take m xs)"
  using assms by (simp add: copy_def min_def)

lemma Sub_ge_iff:
  "minDuration < dur \<Longrightarrow> dur \<le> maxDuration \<Longrightarrow> (dur \<le> Sub x y) = (dur \<le> x - y)"
  by (auto simp: Sub_def)

lemma copyToBuf_eq:
  assumes "0 \<le> n b" and "n b \<le> int (length (buf b))"
  shows "copyToBuf b src =
     Inr (b\<lparr>buf := take (nat (n b)) (buf b) @ take (length (buf b) - nat (n b)) src
                  @ drop (nat (n b) + min (length (buf b) - nat (n b)) (length src)) (buf b),
            n := n b + int (min (length (buf b) - nat (n b)) (length src))\<rparr>,
          min (length (buf b) - nat (n b)) (length src))"
  using assms
  by (auto simp: copyToBuf_def copy_def Let_def min_def add.commute)

lemma copyToBuf_general:
  assumes "0 \<le> n b" and "n b \<le> int (length (buf b))"
  shows "\<exists>b'. copyToBuf b src = Inr (b', min (length (buf b) - nat (n b)) (length src)) \<and>
           pendingBatch b' = pendingBatch b @ take (length (buf b) - nat (n b)) src \<and>
           n b' = n b + int (min (length (buf b) - nat (n b)) (length src)) \<and>
           length (buf b') = length (buf b) \<and>
           wr b' = wr b \<and> t b' = t b \<and> d b' = d b \<and> err b' = err b"
  using assms
  by (auto simp: copyToBuf_eq pendingBatch_def min_def nat_add_distrib)


lemma gridSplit_nonempty: "gridSplit dur a cur cs \<noteq> []"
  by (induction cs arbitrary: a cur) auto

lemma copyToBuf_fits:
  assumes "0 \<le> n b" and "n b \<le> int (length (buf b))"
    and "int (length (pendingBatch b @ src)) \<le> int (length (buf b))"
  shows "\<exists>b'. copyToBuf b src = Inr (b', length src) \<and>
           pendingBatch b' = pendingBatch b @ src \<and>
           n b' = n b + int (length src) \<and>
           length (buf b') = length (buf b) \<and>
           wr b' = wr b \<and> t b' = t b \<and> d b' = d b \<and> err b' = err b"
proof -
  from assms have fit: "length src \<le> length (buf b) - nat (n b)"
    by (auto simp: pendingBatch_def min_def split: if_splits)
  from copyToBuf_general[OF assms(1,2), of src] fit show ?thesis
    by (auto simp: min_def)
qed

lemma Flush_empty: "err b = None \<Longrightarrow> n b = 0 \<Longrightarrow> Flush W b = Inr (None, b)"
  by (simp add: Flush_def)

lemma Flush_accepted:
  assumes "err b = None" and "0 < n b" and "n b \<le> int (length (buf b))"
    and "WriteCalibrationBatch W (wr b) (pendingBatch b) = ((m, None), w1)" and "1 \<le> m"
  shows "Flush W b = Inr (None, b\<lparr>n := 0, wr := w1\<rparr>)"
  using assms by (auto simp: Flush_def pendingBatch_def)

lemma drop_step:
  assumes "i \<le> j" and "drop j p = c # cs"
  shows "take (Suc j - i) (drop i p) = take (j - i) (drop i p) @ [c]"
    and "drop (Suc j) p = cs" and "j < length p"
proof -
  show lt: "j < length p" using assms(2) by (cases "j < length p") auto
  have c: "p ! j = c" using assms(2) lt by (metis nth_via_drop)
  show "drop (Suc j) p = cs" using assms(2) by (metis drop_Suc list.sel(3) tl_drop)
  have "Suc j - i = Suc (j - i)" using assms(1) by simp
  moreover have "j - i < length (drop i p)" using lt assms(1) by simp
  moreover have "drop i p ! (j - i) = p ! j" using lt assms(1) by simp
  ultimately show "take (Suc j - i) (drop i p) = take (j - i) (drop i p) @ [c]"
    using c by (simp add: take_Suc_conv_app_nth)
qed

lemma pendingBatch_length: "0 \<le> n b \<Longrightarrow> n b \<le> int (length (buf b)) \<Longrightarrow> int (length (pendingBatch b)) = n b"
  by (simp add: pendingBatch_def)

lemma loop_grid:
  assumes "err b = None" and "0 \<le> n b" and "n b \<le> int (length (buf b))"
    and "0 < d b" and "d b \<le> maxDuration"
    and "i \<le> j" and "drop j p = cs"
    and "\<forall>w \<in> set (gridSplit (d b) (t b) (pendingBatch b @ take (j - i) (drop i p)) cs).
           length (snd w) \<le> length (buf b)"
    and "storeAccepts W (wr b)
           (filter (\<lambda>w. w \<noteq> [])
              (map snd (butlast (gridSplit (d b) (t b) (pendingBatch b @ take (j - i) (drop i p)) cs))))
         = Some w'"
  shows "\<exists>b'. WriteCalibrations_loop W b p i j cs nn = Inr ((nn + int (length p - i), None), b') \<and>
           wr b' = w' \<and>
           (t b', pendingBatch b') =
              last (gridSplit (d b) (t b) (pendingBatch b @ take (j - i) (drop i p)) cs) \<and>
           err b' = None \<and> d b' = d b \<and> length (buf b') = length (buf b) \<and>
           0 \<le> n b' \<and> n b' \<le> int (length (buf b'))"
  using assms
proof (induction cs arbitrary: b i j nn)
  case Nil
  let ?cur = "pendingBatch b @ take (j - i) (drop i p)"
  from Nil.prems(7) have jl: "length p \<le> j" by simp
  then have tk: "take (j - i) (drop i p) = drop i p" by simp
  from Nil.prems(8) have "length ?cur \<le> length (buf b)" by simp
  with tk have "int (length (pendingBatch b @ drop i p)) \<le> int (length (buf b))" by simp
  from copyToBuf_fits[OF Nil.prems(2,3) this] obtain b' where
    b': "copyToBuf b (drop i p) = Inr (b', length (drop i p))"
      "pendingBatch b' = pendingBatch b @ drop i p" "n b' = n b + int (length (drop i p))"
      "length (buf b') = length (buf b)" "wr b' = wr b" "t b' = t b" "d b' = d b" "err b' = err b"
    by blast
  have nle: "n b' \<le> int (length (buf b'))"
    using b'(3,4) \<open>int (length (pendingBatch b @ drop i p)) \<le> int (length (buf b))\<close>
      pendingBatch_length[OF Nil.prems(2,3)] by simp
  show ?case
    using b' Nil.prems(1,2,9) tk nle by simp
next
  case (Cons c cs)
  let ?cur = "pendingBatch b @ take (j - i) (drop i p)"
  note step = drop_step[OF Cons.prems(6,7)]
  have dmin: "minDuration < d b" using Cons.prems(4) by (simp add: minDuration_def)
  show ?case
  proof (cases "d b \<le> GetTime c - t b")
    case False
    then have nocross: "\<not> d b \<le> Sub (GetTime c) (t b)"
      using Sub_ge_iff[OF dmin Cons.prems(5)] by simp
    have split: "gridSplit (d b) (t b) ?cur (c # cs)
        = gridSplit (d b) (t b) (pendingBatch b @ take (Suc j - i) (drop i p)) cs"
      using False step(1) by simp
    have ij: "i \<le> Suc j" using Cons.prems(6) by simp
    from Cons.IH[OF Cons.prems(1-5) ij step(2), of nn] Cons.prems(8,9) split nocross
    show ?thesis by simp
  next
    case True
    then have cross: "d b \<le> Sub (GetTime c) (t b)"
      using Sub_ge_iff[OF dmin Cons.prems(5)] by simp
    let ?rest = "gridSplit (d b) (Truncate (GetTime c) (d b)) [c] cs"
    have split: "gridSplit (d b) (t b) ?cur (c # cs) = (t b, ?cur) # ?rest"
      using True by simp
    have rest_ne: "?rest \<noteq> []" by (rule gridSplit_nonempty)
    from Cons.prems(8) split have fit: "length ?cur \<le> length (buf b)" by simp
    have len_tk: "length (take (j - i) (drop i p)) = j - i"
      using step(3) Cons.prems(6) by simp
    from fit have "int (length (pendingBatch b @ take (j - i) (drop i p))) \<le> int (length (buf b))"
      by simp
    from copyToBuf_fits[OF Cons.prems(2,3) this] len_tk obtain b1 where
      b1: "copyToBuf b (take (j - i) (drop i p)) = Inr (b1, j - i)"
        "pendingBatch b1 = ?cur" "n b1 = n b + int (j - i)"
        "length (buf b1) = length (buf b)" "wr b1 = wr b" "t b1 = t b" "d b1 = d b" "err b1 = err b"
      by auto
    have n1: "0 \<le> n b1" "n b1 \<le> int (length (buf b1))"
      using b1(3,4) Cons.prems(2) fit len_tk pendingBatch_length[OF Cons.prems(2,3)] by auto
    have n1len: "int (length ?cur) = n b1"
      using pendingBatch_length[OF n1] b1(2) by simp
    obtain b2 where
      b2: "Flush W b1 = Inr (None, b2)" "err b2 = None" "n b2 = 0" "buf b2 = buf b1"
        "d b2 = d b" "t b2 = t b"
        "storeAccepts W (wr b2) (filter (\<lambda>w. w \<noteq> []) (map snd (butlast ?rest))) = Some w'"
    proof (cases "?cur = []")
      case True
      then have "int (length ?cur) = 0" by (simp only: list.size of_nat_0)
      then have "n b1 = 0" using n1len by (simp only:)
      then have "Flush W b1 = Inr (None, b1)"
        using Flush_empty b1(8) Cons.prems(1) by simp
      moreover have "storeAccepts W (wr b1) (filter (\<lambda>w. w \<noteq> []) (map snd (butlast ?rest))) = Some w'"
        using Cons.prems(9) split True rest_ne b1(5) by simp
      ultimately show ?thesis
        using that[of b1] b1 Cons.prems(1) \<open>n b1 = 0\<close> by simp
    next
      case False
      then have "0 < int (length ?cur)" by (metis of_nat_0_less_iff length_greater_0_conv)
      then have pos: "0 < n b1" using n1len by (simp only:)
      from Cons.prems(9) split False rest_ne obtain m w1 where
        wcall: "WriteCalibrationBatch W (wr b) ?cur = ((m, None), w1)" "1 \<le> m"
          "storeAccepts W w1 (filter (\<lambda>w. w \<noteq> []) (map snd (butlast ?rest))) = Some w'"
        by (auto split: prod.splits if_splits)
      have "Flush W b1 = Inr (None, b1\<lparr>n := 0, wr := w1\<rparr>)"
        using Flush_accepted[of b1 W m w1] pos n1 b1 wcall Cons.prems(1) by simp
      then show ?thesis
        using that[of "b1\<lparr>n := 0, wr := w1\<rparr>"] b1 wcall Cons.prems(1) by simp
    qed
    let ?b3 = "resetFirstReadOfBatch b2 c"
    have b3: "err ?b3 = None" "0 \<le> n ?b3" "n ?b3 \<le> int (length (buf ?b3))"
      "0 < d ?b3" "d ?b3 \<le> maxDuration" "d ?b3 = d b" "t ?b3 = Truncate (GetTime c) (d b)"
      "pendingBatch ?b3 = []" "wr ?b3 = wr b2" "length (buf ?b3) = length (buf b)"
      using b2 b1(4) Cons.prems(4,5) by (simp_all add: resetFirstReadOfBatch_def pendingBatch_def)
    have cur3: "pendingBatch ?b3 @ take (Suc j - j) (drop j p) = [c]"
      using b3(8) Cons.prems(7) by simp
    have fit3: "\<forall>w \<in> set (gridSplit (d ?b3) (t ?b3) (pendingBatch ?b3 @ take (Suc j - j) (drop j p)) cs).
           length (snd w) \<le> length (buf ?b3)"
      using Cons.prems(8) split b3(6,7,10) cur3 by simp
    have acc3: "storeAccepts W (wr ?b3)
           (filter (\<lambda>w. w \<noteq> [])
              (map snd (butlast (gridSplit (d ?b3) (t ?b3) (pendingBatch ?b3 @ take (Suc j - j) (drop j p)) cs))))
         = Some w'"
      using b2(7) b3(6,7,9) cur3 by simp
    from Cons.IH[OF b3(1-5) _ step(2) fit3 acc3, of "nn + int (j - i)"] obtain b' where
      b': "WriteCalibrations_loop W ?b3 p j (Suc j) cs (nn + int (j - i))
             = Inr ((nn + int (j - i) + int (length p - j), None), b')"
        "wr b' = w'" "(t b', pendingBatch b') = last ?rest"
        "err b' = None" "d b' = d b" "length (buf b') = length (buf b)"
        "0 \<le> n b'" "n b' \<le> int (length (buf b'))"
      using b3(6,7,10) cur3 by auto
    have cnt: "nn + int (j - i) + int (length p - j) = nn + int (length p - i)"
      using step(3) Cons.prems(6) by simp
    have "WriteCalibrations_loop W b p i j (c # cs) nn
            = WriteCalibrations_loop W ?b3 p j (Suc j) cs (nn + int (j - i))"
      using cross b1(1) b2(1,2) by simp
    with b' cnt split rest_ne show ?thesis by simp
  qed
qed

lemma Truncate_bounds:
  assumes "0 < dur"
  shows "Truncate x dur \<le> x" and "x - Truncate x dur < dur" and "dur dvd Truncate x dur"
  using assms by (simp_all add: Truncate_def dvd_minus_mod)

lemma gridSplit_no_empty:
  "cur \<noteq> [] \<Longrightarrow> w \<in> set (gridSplit dur a cur cs) \<Longrightarrow> snd w \<noteq> []"
  by (induction cs arbitrary: a cur) (auto split: if_splits)

lemma gridWindows_Cons:
  "0 < dur \<Longrightarrow> gridWindows dur (c # cs) = gridSplit dur (Truncate (GetTime c) dur) [c] cs"
  using Truncate_bounds(2)[of dur "GetTime c"] by (simp add: gridWindows_def)

lemma gridWindows_no_empty:
  assumes "0 < dur" and "w \<in> set (gridWindows dur p)"
  shows "snd w \<noteq> []"
proof (cases p)
  case Nil
  with assms(2) show ?thesis by (simp add: gridWindows_def)
next
  case (Cons c cs)
  with assms have "w \<in> set (gridSplit dur (Truncate (GetTime c) dur) [c] cs)"
    by (simp only: gridWindows_Cons)
  then show ?thesis by (rule gridSplit_no_empty[rotated]) simp
qed

lemma filter_nonempty_id:
  "(\<And>w. w \<in> set ws \<Longrightarrow> snd w \<noteq> []) \<Longrightarrow> filter (\<lambda>w. w \<noteq> []) (map snd ws) = map snd ws"
  by (induction ws) auto

lemma gridSplit_concat: "concat (map snd (gridSplit dur a cur cs)) = cur @ cs"
  by (induction cs arbitrary: a cur) auto

lemma gridWindows_concat: "concat (map snd (gridWindows dur p)) = p"
  by (cases p) (simp_all add: gridWindows_def gridSplit_concat)

lemma gridSplit_within:
  assumes "\<forall>x \<in> set cur. GetTime x - a < dur" and "(b, w) \<in> set (gridSplit dur a cur cs)"
    and "0 < dur"
  shows "\<forall>x \<in> set w. GetTime x - b < dur"
  using assms
proof (induction cs arbitrary: a cur)
  case Nil
  then show ?case by auto
next
  case (Cons c cs)
  show ?case
  proof (cases "dur \<le> GetTime c - a")
    case True
    with Cons.prems(2) have "(b, w) = (a, cur) \<or> (b, w) \<in> set (gridSplit dur (Truncate (GetTime c) dur) [c] cs)"
      by simp
    then show ?thesis
    proof
      assume "(b, w) = (a, cur)"
      with Cons.prems(1) show ?thesis by simp
    next
      assume m: "(b, w) \<in> set (gridSplit dur (Truncate (GetTime c) dur) [c] cs)"
      have "\<forall>x \<in> set [c]. GetTime x - Truncate (GetTime c) dur < dur"
        using Truncate_bounds(2)[OF Cons.prems(3)] by simp
      from Cons.IH[OF this m Cons.prems(3)] show ?thesis .
    qed
  next
    case False
    with Cons.prems(2) have m: "(b, w) \<in> set (gridSplit dur a (cur @ [c]) cs)" by simp
    have "\<forall>x \<in> set (cur @ [c]). GetTime x - a < dur"
      using Cons.prems(1) False by auto
    from Cons.IH[OF this m Cons.prems(3)] show ?thesis .
  qed
qed

lemma gridSplit_anchor:
  assumes "cur \<noteq> []"
    and "(b, w) \<in> set (gridSplit dur (Truncate (GetTime (hd cur)) dur) cur cs)"
  shows "b = Truncate (GetTime (hd w)) dur"
  using assms
proof (induction cs arbitrary: cur)
  case Nil
  then show ?case by simp
next
  case (Cons c cs)
  show ?case
  proof (cases "dur \<le> GetTime c - Truncate (GetTime (hd cur)) dur")
    case True
    with Cons.prems(2) have "(b, w) = (Truncate (GetTime (hd cur)) dur, cur) \<or>
        (b, w) \<in> set (gridSplit dur (Truncate (GetTime (hd [c])) dur) [c] cs)"
      by simp
    then show ?thesis
    proof
      assume "(b, w) = (Truncate (GetTime (hd cur)) dur, cur)"
      then show ?thesis by simp
    next
      assume "(b, w) \<in> set (gridSplit dur (Truncate (GetTime (hd [c])) dur) [c] cs)"
      then show ?thesis by (rule Cons.IH[rotated]) simp
    qed
  next
    case False
    have "hd (cur @ [c]) = hd cur" using Cons.prems(1) by simp
    with False Cons.prems(2)
    have "(b, w) \<in> set (gridSplit dur (Truncate (GetTime (hd (cur @ [c]))) dur) (cur @ [c]) cs)"
      by simp
    then show ?thesis by (rule Cons.IH[rotated]) simp
  qed
qed

lemma WriteCalibrations_refines_gridWindows:
  assumes "n b = 0" and "err b = None" and "0 < d b" and "d b \<le> maxDuration" and "p \<noteq> []"
    and "\<forall>w \<in> set (gridWindows (d b) p). length (snd w) \<le> length (buf b)"
    and "storeAccepts W (wr b) (map snd (butlast (gridWindows (d b) p))) = Some w'"
  shows "\<exists>b'. WriteCalibrations W b p = Inr ((int (length p), None), b') \<and>
           wr b' = w' \<and> (t b', pendingBatch b') = last (gridWindows (d b) p) \<and>
           err b' = None \<and> d b' = d b \<and> length (buf b') = length (buf b) \<and>
           0 \<le> n b' \<and> n b' \<le> int (length (buf b'))"
proof -
  from assms(5) obtain c cs where p: "p = c # cs" by (cases p) auto
  let ?b0 = "resetFirstReadOfBatch b c"
  have b0: "err ?b0 = None" "0 \<le> n ?b0" "n ?b0 \<le> int (length (buf ?b0))" "0 < d ?b0"
    "d ?b0 \<le> maxDuration" "d ?b0 = d b" "t ?b0 = Truncate (GetTime c) (d b)"
    "pendingBatch ?b0 = []" "wr ?b0 = wr b" "length (buf ?b0) = length (buf b)"
    using assms(1-4) by (simp_all add: resetFirstReadOfBatch_def pendingBatch_def)
  have ws: "gridSplit (d ?b0) (t ?b0) (pendingBatch ?b0 @ take (0 - 0) (drop 0 p)) p
            = gridWindows (d b) p"
    using b0(6,7,8) p by (simp add: gridWindows_def)
  have fit: "\<forall>w \<in> set (gridSplit (d ?b0) (t ?b0) (pendingBatch ?b0 @ take (0 - 0) (drop 0 p)) p).
           length (snd w) \<le> length (buf ?b0)"
    unfolding ws using assms(6) b0(10) by simp
  have "filter (\<lambda>w. w \<noteq> []) (map snd (butlast (gridWindows (d b) p)))
          = map snd (butlast (gridWindows (d b) p))"
    using gridWindows_no_empty[OF assms(3)] by (intro filter_nonempty_id) (auto dest: in_set_butlastD)
  then have acc: "storeAccepts W (wr ?b0)
           (filter (\<lambda>w. w \<noteq> [])
              (map snd (butlast (gridSplit (d ?b0) (t ?b0) (pendingBatch ?b0 @ take (0 - 0) (drop 0 p)) p))))
         = Some w'"
    unfolding ws using assms(7) b0(9) by simp
  have dr: "drop 0 p = p" by simp
  from loop_grid[OF b0(1-5) le_refl dr fit acc, of 0] ws b0(6,10)
  obtain b' where "WriteCalibrations_loop W ?b0 p 0 0 p 0 = Inr ((int (length p), None), b')"
    "wr b' = w'" "(t b', pendingBatch b') = last (gridWindows (d b) p)"
    "err b' = None" "d b' = d b" "length (buf b') = length (buf b)"
    "0 \<le> n b'" "n b' \<le> int (length (buf b'))"
    by auto
  moreover have "WriteCalibrations W b p = WriteCalibrations_loop W ?b0 p 0 0 p 0"
    using assms(1) p by (simp add: WriteCalibrations_def)
  ultimately show ?thesis by auto
qed

lemma loop_no_crossing:
  "\<forall>c \<in> set cs. \<not> d b \<le> Sub (GetTime c) (t b) \<Longrightarrow>
   WriteCalibrations_loop W b p i j cs nn =
     (case copyToBuf b (drop i p) of
        Inl pn \<Rightarrow> Inl pn
      | Inr (b', k) \<Rightarrow> Inr ((nn + int k, None), b'))"
  by (induction cs arbitrary: j) auto

lemma WriteCalibrations_one_window:
  assumes "n b = 0" and "p \<noteq> []"
    and "\<forall>c \<in> set p. Sub (GetTime c) (Truncate (GetTime (hd p)) (d b)) < d b"
  shows "\<exists>b'. WriteCalibrations W b p = Inr ((int (min (length (buf b)) (length p)), None), b') \<and>
           pendingBatch b' = take (length (buf b)) p \<and>
           n b' = int (min (length (buf b)) (length p)) \<and>
           length (buf b') = length (buf b) \<and>
           wr b' = wr b \<and> err b' = err b"
proof -
  from assms(2) obtain c cs where p: "p = c # cs" by (cases p) auto
  let ?b0 = "resetFirstReadOfBatch b c"
  have b0: "n ?b0 = 0" "buf ?b0 = buf b" "wr ?b0 = wr b" "err ?b0 = err b"
    "t ?b0 = Truncate (GetTime (hd p)) (d b)" "d ?b0 = d b" "pendingBatch ?b0 = []"
    using assms(1) p by (simp_all add: resetFirstReadOfBatch_def pendingBatch_def)
  have nc: "\<forall>c \<in> set p. \<not> d ?b0 \<le> Sub (GetTime c) (t ?b0)"
    using assms(3) b0(5,6) by auto
  have "0 \<le> n ?b0" "n ?b0 \<le> int (length (buf ?b0))" using b0(1) by simp_all
  from copyToBuf_general[OF this, of p] obtain b' where
    b': "copyToBuf ?b0 p = Inr (b', min (length (buf ?b0) - nat (n ?b0)) (length p))"
      "pendingBatch b' = pendingBatch ?b0 @ take (length (buf ?b0) - nat (n ?b0)) p"
      "n b' = n ?b0 + int (min (length (buf ?b0) - nat (n ?b0)) (length p))"
      "length (buf b') = length (buf ?b0)"
      "wr b' = wr ?b0" "err b' = err ?b0"
    by blast
  have "WriteCalibrations W b p = WriteCalibrations_loop W ?b0 p 0 0 p 0"
    using assms(1) p by (simp add: WriteCalibrations_def)
  also have "\<dots> = (case copyToBuf ?b0 (drop 0 p) of
        Inl pn \<Rightarrow> Inl pn
      | Inr (b', k) \<Rightarrow> Inr ((0 + int k, None), b'))"
    by (rule loop_no_crossing[OF nc])
  finally show ?thesis
    using b' b0 by simp
qed


lemma MealFlush_cells: "MealFlush M s wld = Inr (r, wld') \<Longrightarrow> cells wld' = cells wld"
  by (auto simp: MealFlush_def split: prod.splits sum.splits if_splits option.splits)

lemma replicate_numeral: "replicate (numeral k) x = x # replicate (pred_numeral k) x"
  by (simp add: numeral_eq_Suc)

lemma gridWindows_meaning:
  assumes "0 < dur" and "(a, w) \<in> set (gridWindows dur p)"
  shows "w \<noteq> [] \<and> a = Truncate (GetTime (hd w)) dur \<and> dur dvd a \<and> a \<le> GetTime (hd w) \<and>
         (\<forall>x \<in> set w. GetTime x - a < dur)"
proof (cases p)
  case Nil
  with assms(2) show ?thesis by (simp add: gridWindows_def)
next
  case (Cons c cs)
  with assms have m: "(a, w) \<in> set (gridSplit dur (Truncate (GetTime (hd [c])) dur) [c] cs)"
    by (simp add: gridWindows_Cons)
  have ne: "w \<noteq> []" using gridWindows_no_empty[OF assms] by simp
  have a: "a = Truncate (GetTime (hd w)) dur"
    by (rule gridSplit_anchor[OF _ m]) simp
  have "\<forall>x \<in> set [c]. GetTime x - Truncate (GetTime (hd [c])) dur < dur"
    using Truncate_bounds(2)[OF assms(1)] by simp
  from gridSplit_within[OF this m assms(1)] ne a Truncate_bounds(1,3)[OF assms(1)]
  show ?thesis by simp
qed

lemma take_prefix_shrink:
  assumes "take (length (xs @ ys)) zs = xs @ ys"
  shows "take (length xs) zs = xs"
proof -
  have "take (length xs) (take (length (xs @ ys)) zs) = take (length xs) zs"
    by (simp add: min_def)
  with assms show ?thesis by simp
qed

lemma arrivalSplit_nonempty: "arrivalSplit dur a cur cs \<noteq> []"
  by (induction cs arbitrary: a cur) auto

lemma arrivalSplit_meaning:
  assumes "cur \<noteq> []" and "\<forall>x \<in> set cur. GetTime x - GetTime (hd cur) < dur"
    and "(a, w) \<in> set (arrivalSplit dur (GetTime (hd cur)) cur cs)" and "0 < dur"
  shows "w \<noteq> [] \<and> a = GetTime (hd w) \<and> (\<forall>x \<in> set w. GetTime x - a < dur)"
  using assms
proof (induction cs arbitrary: cur)
  case Nil
  then show ?case by simp
next
  case (Cons c cs)
  show ?case
  proof (cases "dur \<le> GetTime c - GetTime (hd cur)")
    case True
    with Cons.prems(3) have "(a, w) = (GetTime (hd cur), cur) \<or>
        (a, w) \<in> set (arrivalSplit dur (GetTime (hd [c])) [c] cs)"
      by simp
    then show ?thesis
    proof
      assume "(a, w) = (GetTime (hd cur), cur)"
      with Cons.prems(1,2) show ?thesis by simp
    next
      assume m: "(a, w) \<in> set (arrivalSplit dur (GetTime (hd [c])) [c] cs)"
      show ?thesis
        by (rule Cons.IH[OF _ _ m Cons.prems(4)]) (use Cons.prems(4) in simp_all)
    qed
  next
    case False
    have hd: "hd (cur @ [c]) = hd cur" using Cons.prems(1) by simp
    from False Cons.prems(3)
    have m: "(a, w) \<in> set (arrivalSplit dur (GetTime (hd (cur @ [c]))) (cur @ [c]) cs)"
      by (simp add: hd)
    show ?thesis
      by (rule Cons.IH[OF _ _ m Cons.prems(4)]) (use Cons.prems(1,2) False hd in auto)
  qed
qed

lemma arrivalWindows_meaning:
  assumes "0 < dur" and "(a, w) \<in> set (arrivalWindows dur p)"
  shows "w \<noteq> [] \<and> a = GetTime (hd w) \<and> (\<forall>x \<in> set w. GetTime x - a < dur)"
proof (cases p)
  case Nil
  with assms(2) show ?thesis by (simp add: arrivalWindows_def)
next
  case (Cons c cs)
  with assms(2) have m: "(a, w) \<in> set (arrivalSplit dur (GetTime (hd [c])) [c] cs)"
    by (simp add: arrivalWindows_def)
  show ?thesis
    by (rule arrivalSplit_meaning[OF _ _ m assms(1)]) (use assms(1) in simp_all)
qed

lemma arrivalSplit_concat: "concat (map snd (arrivalSplit dur a cur cs)) = cur @ cs"
  by (induction cs arbitrary: a cur) auto

lemma arrivalWindows_concat: "concat (map snd (arrivalWindows dur p)) = p"
  by (cases p) (simp_all add: arrivalWindows_def arrivalSplit_concat)

lemma storeAccepts_append:
  "storeAccepts W w (xss @ yss) =
     (case storeAccepts W w xss of None \<Rightarrow> None | Some w1 \<Rightarrow> storeAccepts W w1 yss)"
  by (induction xss arbitrary: w) (auto split: prod.splits)

lemma calibration_no_loss_when_windows_fit:
  assumes "n b = 0" and "err b = None" and "0 < d b" and "d b \<le> maxDuration" and "p \<noteq> []"
    and "\<forall>w \<in> set (gridWindows (d b) p). length (snd w) \<le> length (buf b)"
    and "storeAccepts W (wr b) (map snd (gridWindows (d b) p)) = Some w'"
  shows "\<exists>b'. WriteCalibrations W b p = Inr ((int (length p), None), b') \<and>
           Close W b' = (case FlushWriter W w' of (e, w2) \<Rightarrow> Inr (e, b'\<lparr>n := 0, wr := w2\<rparr>)) \<and>
           concat (map snd (gridWindows (d b) p)) = p"
proof -
  let ?ws = "gridWindows (d b) p"
  have wne: "?ws \<noteq> []"
    using assms(5) by (cases p) (simp_all add: gridWindows_def gridSplit_nonempty)
  then have ws: "map snd ?ws = map snd (butlast ?ws) @ [snd (last ?ws)]"
    by (metis append_butlast_last_id list.simps(8,9) map_append)
  have "storeAccepts W (wr b) (map snd (butlast ?ws) @ [snd (last ?ws)]) = Some w'"
    using assms(7) ws by (simp only:)
  then obtain w1 where
    acc1: "storeAccepts W (wr b) (map snd (butlast ?ws)) = Some w1"
    and acc2: "storeAccepts W w1 [snd (last ?ws)] = Some w'"
    unfolding storeAccepts_append by (auto split: option.splits)
  from WriteCalibrations_refines_gridWindows[OF assms(1-6) acc1] obtain b' where
    b': "WriteCalibrations W b p = Inr ((int (length p), None), b')"
      "wr b' = w1" "(t b', pendingBatch b') = last ?ws"
      "err b' = None" "0 \<le> n b'" "n b' \<le> int (length (buf b'))"
    by blast
  have pb: "pendingBatch b' = snd (last ?ws)" using b'(3) by (metis snd_conv)
  have "last ?ws \<in> set ?ws" using wne by simp
  from gridWindows_no_empty[OF assms(3) this] pb have "pendingBatch b' \<noteq> []" by simp
  then have pos: "0 < n b'" using b'(5) by (cases "n b' = 0") (auto simp: pendingBatch_def)
  from acc2 pb obtain m where
    wb: "WriteCalibrationBatch W w1 (pendingBatch b') = ((m, None), w')" "1 \<le> m"
    by (auto split: prod.splits if_splits)
  have "Flush W b' = Inr (None, b'\<lparr>n := 0, wr := w'\<rparr>)"
    using Flush_accepted[of b' W m w'] b'(2,4,6) pos wb by simp
  then have "Close W b' = (case FlushWriter W w' of (e, w2) \<Rightarrow> Inr (e, b'\<lparr>n := 0, wr := w2\<rparr>))"
    by (simp add: Close_def split: prod.splits)
  with b'(1) gridWindows_concat show ?thesis by blast
qed

lemma Close_scripted_after_write:
  assumes "err b = None" and "0 \<le> n b" and "n b \<le> int (length (buf b))" and "wr b = emptyStore"
  shows "\<exists>b'. Close scriptedWriter b = Inr (None, b') \<and>
           concat (batches (wr b')) = pendingBatch b"
proof (cases "n b = 0")
  case True
  with assms show ?thesis
    by (simp add: Close_def Flush_def scriptedWriter_def scriptedFlush_def emptyStore_def
        batches_def pendingBatch_def)
next
  case False
  with assms(2) have pos: "0 < n b" by simp
  have len: "int (length (pendingBatch b)) = n b"
    using pendingBatch_length[OF assms(2,3)] .
  have m: "1 \<le> int (length (pendingBatch b))" using len pos by simp
  have wb: "WriteCalibrationBatch scriptedWriter (wr b) (pendingBatch b)
      = ((int (length (pendingBatch b)), None), emptyStore\<lparr>calls := [BatchWritten (pendingBatch b)]\<rparr>)"
    using assms(4) by (simp add: scriptedWriter_def scriptedWrite_def emptyStore_def)
  have "Flush scriptedWriter b
      = Inr (None, b\<lparr>n := 0, wr := emptyStore\<lparr>calls := [BatchWritten (pendingBatch b)]\<rparr>\<rparr>)"
    by (rule Flush_accepted[OF assms(1) pos assms(3) wb m])
  then show ?thesis
    by (simp add: Close_def scriptedWriter_def scriptedFlush_def emptyStore_def batches_def)
qed

lemma WriteMeals_loop_frame:
  "WriteMeals_loop M s xs wld = Inr (r, wld') \<Longrightarrow>
     take (length (cells wld)) (cells wld') = cells wld"
proof (induction xs arbitrary: s wld)
  case Nil
  then show ?case by simp
next
  case (Cons x xs)
  have shrink: "\<And>w. take (length (cells wld @ [x])) (cells w) = cells wld @ [x] \<Longrightarrow>
      take (length (cells wld)) (cells w) = cells wld"
    by (rule take_prefix_shrink)
  from Cons.prems show ?case
    by (auto simp: Let_def split: if_splits option.splits sum.splits prod.splits
        dest!: Cons.IH MealFlush_cells intro!: shrink)
qed

lemma WriteMeals_loop_step:
  assumes "head s \<noteq> []" and "tailVal s = Some a" and "a < length (cells wld)"
    and "minDuration < md s" and "md s \<le> maxDuration"
  shows "WriteMeals_loop M s (c # cs) wld =
     (if md s \<le> GetTime c - GetTime (cells wld ! a) then
        (case WriteMealBatch M (mwr s) (rev (head s)) (store wld) of
           ((w', Some e), st') \<Rightarrow> Inr ((None, Some e), (wld\<lparr>cells := cells wld @ [c], store := st'\<rparr>))
         | ((w', None), st') \<Rightarrow>
             WriteMeals_loop M
               \<lparr>head = [c], tailVal = Some (length (cells wld)), mwr = w', md = md s\<rparr> cs
               (wld\<lparr>cells := cells wld @ [c], store := st'\<rparr>))
      else WriteMeals_loop M \<lparr>head = c # head s, tailVal = Some a, mwr = mwr s, md = md s\<rparr> cs
             (wld\<lparr>cells := cells wld @ [c]\<rparr>))"
  using assms ListToArrayOfMealReads_all[of "rev (head s)"]
  by (auto simp: newMealStreamerDuration_def NewImmutableList_def
      MealFlush_def ReverseList_def Sub_ge_iff nth_append Let_def
      split: prod.splits option.splits)

lemma WriteMeals_loop_arrival:
  assumes "head s \<noteq> []" and "tailVal s = Some a" and "a < length (cells wld)"
    and "minDuration < md s" and "md s \<le> maxDuration"
    and "mealStoreAccepts M (mwr s) (store wld)
           (map snd (butlast (arrivalSplit (md s) (GetTime (cells wld ! a)) (rev (head s)) cs)))
         = Some (w', st')"
    and "cells wld ! a = last (head s)"
  shows "\<exists>s' wld' a'. WriteMeals_loop M s cs wld = Inr ((Some s', None), wld') \<and>
           tailVal s' = Some a' \<and> a' < length (cells wld') \<and>
           cells wld' ! a' = last (head s') \<and>
           (GetTime (cells wld' ! a'), rev (head s')) =
              last (arrivalSplit (md s) (GetTime (cells wld ! a)) (rev (head s)) cs) \<and>
           mwr s' = w' \<and> store wld' = st' \<and> md s' = md s \<and> head s' \<noteq> []"
  using assms
proof (induction cs arbitrary: s wld a)
  case Nil
  then show ?case by simp
next
  case (Cons c cs)
  note step = WriteMeals_loop_step[OF Cons.prems(1-5), of M c cs]
  show ?case
  proof (cases "md s \<le> GetTime c - GetTime (cells wld ! a)")
    case False
    let ?s1 = "\<lparr>head = c # head s, tailVal = Some a, mwr = mwr s, md = md s\<rparr>"
    let ?w1 = "(wld\<lparr>cells := cells wld @ [c]\<rparr>)"
    have wm: "WriteMeals_loop M s (c # cs) wld = WriteMeals_loop M ?s1 cs ?w1"
      using step False by simp
    have s1: "head ?s1 \<noteq> []" "tailVal ?s1 = Some a" "a < length (cells ?w1)"
      "minDuration < md ?s1" "md ?s1 \<le> maxDuration"
      using Cons.prems by simp_all
    have cell: "cells ?w1 ! a = cells wld ! a" using Cons.prems(3) by (simp add: nth_append)
    have acc: "mealStoreAccepts M (mwr ?s1) (store ?w1)
           (map snd (butlast (arrivalSplit (md ?s1) (GetTime (cells ?w1 ! a)) (rev (head ?s1)) cs)))
         = Some (w', st')"
      using Cons.prems(6) False cell by simp
    have inv: "cells ?w1 ! a = last (head ?s1)"
      using cell Cons.prems(1,7) by simp
    from Cons.IH[OF s1 acc inv] show ?thesis
      unfolding wm using False cell by simp
  next
    case True
    from Cons.prems(6) True arrivalSplit_nonempty[of "md s" "GetTime c" "[c]" cs]
    obtain w1 st1 where
      wb: "WriteMealBatch M (mwr s) (rev (head s)) (store wld) = ((w1, None), st1)"
      and acc1: "mealStoreAccepts M w1 st1
           (map snd (butlast (arrivalSplit (md s) (GetTime c) [c] cs))) = Some (w', st')"
      by (auto split: prod.splits option.splits)
    let ?s1 = "\<lparr>head = [c], tailVal = Some (length (cells wld)), mwr = w1, md = md s\<rparr>"
    let ?w1 = "(wld\<lparr>cells := cells wld @ [c], store := st1\<rparr>)"
    have wm: "WriteMeals_loop M s (c # cs) wld = WriteMeals_loop M ?s1 cs ?w1"
      using step True wb by simp
    have s1: "head ?s1 \<noteq> []" "tailVal ?s1 = Some (length (cells wld))"
      "length (cells wld) < length (cells ?w1)"
      "minDuration < md ?s1" "md ?s1 \<le> maxDuration"
      using Cons.prems by simp_all
    have acc: "mealStoreAccepts M (mwr ?s1) (store ?w1)
           (map snd (butlast (arrivalSplit (md ?s1) (GetTime (cells ?w1 ! length (cells wld)))
               (rev (head ?s1)) cs)))
         = Some (w', st')"
      using acc1 by simp
    have inv: "cells ?w1 ! length (cells wld) = last (head ?s1)" by simp
    from Cons.IH[OF s1 acc inv] show ?thesis
      unfolding wm using True arrivalSplit_nonempty[of "md s" "GetTime c" "[c]" cs] by simp
  qed
qed

lemma WriteMeals_first:
  "WriteMeals M (NewMealStreamerDuration w dur) (c # cs) wld =
     WriteMeals_loop M \<lparr>head = [c], tailVal = Some (length (cells wld)), mwr = w, md = dur\<rparr> cs
       (wld\<lparr>cells := cells wld @ [c]\<rparr>)"
  by (simp add: WriteMeals_def NewMealStreamerDuration_def newMealStreamerDuration_def
      NewImmutableList_def Let_def)

lemma WriteMeals_refines_arrivalWindows:
  assumes "minDuration < dur" and "dur \<le> maxDuration" and "p \<noteq> []"
    and "mealStoreAccepts M w (store wld) (map snd (butlast (arrivalWindows dur p))) = Some (w', st')"
  shows "\<exists>s' wld' a'. WriteMeals M (NewMealStreamerDuration w dur) p wld
             = Inr ((Some s', None), wld') \<and>
           tailVal s' = Some a' \<and> a' < length (cells wld') \<and>
           cells wld' ! a' = last (head s') \<and>
           (GetTime (cells wld' ! a'), rev (head s')) = last (arrivalWindows dur p) \<and>
           mwr s' = w' \<and> store wld' = st' \<and> md s' = dur \<and> head s' \<noteq> []"
proof -
  from assms(3) obtain c cs where p: "p = c # cs" by (cases p) auto
  let ?s1 = "\<lparr>head = [c], tailVal = Some (length (cells wld)), mwr = w, md = dur\<rparr>"
  let ?w1 = "(wld\<lparr>cells := cells wld @ [c]\<rparr>)"
  have s1: "head ?s1 \<noteq> []" "tailVal ?s1 = Some (length (cells wld))"
    "length (cells wld) < length (cells ?w1)" "minDuration < md ?s1" "md ?s1 \<le> maxDuration"
    using assms(1,2) by simp_all
  have acc: "mealStoreAccepts M (mwr ?s1) (store ?w1)
       (map snd (butlast (arrivalSplit (md ?s1) (GetTime (cells ?w1 ! length (cells wld)))
           (rev (head ?s1)) cs))) = Some (w', st')"
    using assms(4) p by (simp add: arrivalWindows_def)
  have inv: "cells ?w1 ! length (cells wld) = last (head ?s1)" by simp
  from WriteMeals_loop_arrival[OF s1 acc inv] show ?thesis
    unfolding p WriteMeals_first by (simp add: arrivalWindows_def)
qed


lemma WriteMeals_continues_window:
  assumes "head s \<noteq> []" and "tailVal s = Some a" and "a < length (cells wld)"
    and "minDuration < md s" and "md s \<le> maxDuration"
    and "mealStoreAccepts M (mwr s) (store wld)
           (map snd (butlast (arrivalSplit (md s) (GetTime (cells wld ! a)) (rev (head s)) p)))
         = Some (w', st')"
    and "cells wld ! a = last (head s)"
  shows "\<exists>s' wld' a'. WriteMeals M s p wld = Inr ((Some s', None), wld') \<and>
           tailVal s' = Some a' \<and> a' < length (cells wld') \<and>
           cells wld' ! a' = last (head s') \<and>
           (GetTime (cells wld' ! a'), rev (head s')) =
              last (arrivalSplit (md s) (GetTime (cells wld ! a)) (rev (head s)) p) \<and>
           mwr s' = w' \<and> store wld' = st' \<and> md s' = md s \<and> head s' \<noteq> []"
proof -
  have "newMealStreamerDuration (head s) (tailVal s) (mwr s) (md s) = s"
    by (simp add: newMealStreamerDuration_def)
  then have "WriteMeals M s p wld = WriteMeals_loop M s p wld"
    by (simp add: WriteMeals_def)
  with WriteMeals_loop_arrival[OF assms] show ?thesis by simp
qed

lemma mealStoreAccepts_append:
  "mealStoreAccepts M w st (xss @ yss) =
     (case mealStoreAccepts M w st xss of
        None \<Rightarrow> None
      | Some (w1, st1) \<Rightarrow> mealStoreAccepts M w1 st1 yss)"
  by (induction xss arbitrary: w st) (auto split: prod.splits option.splits)

lemma meal_no_loss:
  assumes "0 < dur" and "dur \<le> maxDuration" and "p \<noteq> []"
    and "mealStoreAccepts M w (store wld) (map snd (arrivalWindows dur p)) = Some (w', st')"
  shows "\<exists>s' wld1. WriteMeals M (NewMealStreamerDuration w dur) p wld
             = Inr ((Some s', None), wld1) \<and>
           MealClose M s' wld1 =
             (case FlushMealWriter M w' st' of
                ((iw, Some e), st2) \<Rightarrow>
                  Inr ((Some \<lparr>head = [], tailVal = None, mwr = iw, md = dur\<rparr>, Some e),
                       wld1\<lparr>store := st2\<rparr>)
              | ((iw, None), st2) \<Rightarrow>
                  Inr ((Some \<lparr>head = [], tailVal = None, mwr = w', md = dur\<rparr>, None),
                       wld1\<lparr>store := st2\<rparr>)) \<and>
           concat (map snd (arrivalWindows dur p)) = p"
proof -
  let ?ws = "arrivalWindows dur p"
  have dmin: "minDuration < dur" using assms(1) by (simp add: minDuration_def)
  have wne: "?ws \<noteq> []"
    using assms(3) by (cases p) (simp_all add: arrivalWindows_def arrivalSplit_nonempty)
  then have ws: "map snd ?ws = map snd (butlast ?ws) @ [snd (last ?ws)]"
    by (metis append_butlast_last_id list.simps(8,9) map_append)
  have "mealStoreAccepts M w (store wld) (map snd (butlast ?ws) @ [snd (last ?ws)]) = Some (w', st')"
    using assms(4) ws by (simp only:)
  then obtain w1 st1 where
    acc1: "mealStoreAccepts M w (store wld) (map snd (butlast ?ws)) = Some (w1, st1)"
    and acc2: "mealStoreAccepts M w1 st1 [snd (last ?ws)] = Some (w', st')"
    unfolding mealStoreAccepts_append by (auto split: option.splits)
  from WriteMeals_refines_arrivalWindows[OF dmin assms(2,3) acc1] obtain s' wld1 a' where
    r: "WriteMeals M (NewMealStreamerDuration w dur) p wld = Inr ((Some s', None), wld1)"
      "(GetTime (cells wld1 ! a'), rev (head s')) = last ?ws"
      "mwr s' = w1" "store wld1 = st1" "md s' = dur" "head s' \<noteq> []"
    by blast
  have hd: "rev (head s') = snd (last ?ws)" using r(2) by (metis snd_conv)
  from acc2 hd have wb: "WriteMealBatch M w1 (rev (head s')) st1 = ((w', None), st')"
    by (auto split: prod.splits option.splits)
  have "MealClose M s' wld1 =
             (case FlushMealWriter M w' st' of
                ((iw, Some e), st2) \<Rightarrow>
                  Inr ((Some \<lparr>head = [], tailVal = None, mwr = iw, md = dur\<rparr>, Some e),
                       wld1\<lparr>store := st2\<rparr>)
              | ((iw, None), st2) \<Rightarrow>
                  Inr ((Some \<lparr>head = [], tailVal = None, mwr = w', md = dur\<rparr>, None),
                       wld1\<lparr>store := st2\<rparr>))"
    using r(3-6) wb ListToArrayOfMealReads_all[of "rev (head s')"]
    by (auto simp: MealClose_def MealFlush_def ReverseList_def newMealStreamerDuration_def
        split: prod.splits option.splits)
  with r(1) arrivalWindows_concat show ?thesis by blast
qed

lemmas example_defs =
  scriptedWriter_def scriptedMealWriter_def scriptedWrite_def scriptedFlush_def emptyStore_def
  threeBuffered_def faulted_def twoMeals_def mealWorld_def storeDown_def at_def hour_def minute_def
  zeroRecord_def pendingBatch_def tick_def

lemmas calibration_defs =
  WriteCalibrations_def NewCalibrationReadStreamerDuration_def
  resetFirstReadOfBatch_def Truncate_def Sub_def maxDuration_def minDuration_def
  copyToBuf_def copy_def Flush_def Close_def replicate_numeral

lemmas meal_defs =
  WriteMeals_def WriteMeal_def MealFlush_def MealClose_def ReverseList_def NewImmutableList_def
  newMealStreamerDuration_def NewMealStreamerDuration_def Sub_def maxDuration_def minDuration_def

section \<open>Short writes\<close>

text \<open>
  C2, as the code has it. A flush that submits \<open>K > 0\<close> records, where the store reports
  \<open>C\<close> committed with \<open>0 \<le> C < K\<close> and either reports an error or reports \<open>C = 0\<close> (a nil
  error is then replaced by \<^verbatim>\<open>ErrShortWrite\<close>), returns that error, records it as the
  buffer's fault state, and leaves exactly the \<open>K - C\<close> uncommitted records at the front of
  the buffer in their order: they are what \<^verbatim>\<open>b.buf[0:b.n]\<close>, the input of the next flush,
  holds.
\<close>

theorem short_write_retention:
  assumes "err b = None" and "0 < n b" and "n b \<le> int (length (buf b))"
    and "WriteCalibrationBatch W (wr b) (pendingBatch b) = ((C, e0), w')"
    and "0 \<le> C" and "C < n b" and "e0 \<noteq> None \<or> C = 0"
  shows "\<exists>b'. Flush W b = Inr (Some (case e0 of None \<Rightarrow> ErrShortWrite | Some e \<Rightarrow> e), b') \<and>
           err b' = Some (case e0 of None \<Rightarrow> ErrShortWrite | Some e \<Rightarrow> e) \<and>
           n b' = n b - C \<and>
           pendingBatch b' = drop (nat C) (pendingBatch b) \<and>
           wr b' = w'"
proof -
  have le: "nat C \<le> nat (n b)" "nat (n b) \<le> length (buf b)"
    using assms(2,3,5,6) by auto
  have nat_diff: "nat (n b - C) = nat (n b) - nat C"
    using assms(5,6) by auto
  show ?thesis
  proof (cases "C = 0")
    case True
    with assms(1-4) show ?thesis
      by (cases e0) (auto simp: Flush_def pendingBatch_def)
  next
    case False
    with assms(5,7) obtain e where e0: "e0 = Some e" and pos: "0 < C" by auto
    from compact_front[OF le] assms(1-4,6) e0 pos show ?thesis
      by (auto simp: Flush_def pendingBatch_def nat_diff)
  qed
qed

text \<open>
  The theorem at work: three records buffered, the store commits one and reports a
  failure; and the store commits none and reports nothing.
\<close>

theorem short_write_retention_witness:
  "(\<exists>b'. Flush scriptedWriter
            (threeBuffered (emptyStore\<lparr>writeReplies := [(1, Some storeDown)]\<rparr>))
          = Inr (Some storeDown, b') \<and>
        err b' = Some storeDown \<and> n b' = 2 \<and> pendingBatch b' = [at 10, at 20])"
  using short_write_retention
    [of "threeBuffered (emptyStore\<lparr>writeReplies := [(1, Some storeDown)]\<rparr>)"
        scriptedWriter 1 "Some storeDown"
        "emptyStore\<lparr>calls := [BatchWritten [at 0, at 10, at 20]]\<rparr>"]
  by (simp add: example_defs) blast

text \<open>
  C2 as stated fails where the store reports \<open>0 < C < K\<close> and no error: three records
  are submitted, the store commits one without an error, and the flush returns no error,
  records none and empties the buffer.
\<close>

theorem short_write_no_error_counterexample:
  "Flush scriptedWriter (threeBuffered (emptyStore\<lparr>writeReplies := [(1, None)]\<rparr>))
   = Inr (None,
       (threeBuffered (emptyStore\<lparr>calls := [BatchWritten [at 0, at 10, at 20]]\<rparr>))\<lparr>n := 0\<rparr>)"
  by (simp add: Flush_def example_defs)

section \<open>The fault state\<close>

text \<open>
  C3. In a state where an error is recorded, \<^verbatim>\<open>Flush\<close> returns that error and
  \<^verbatim>\<open>WriteCalibration\<close> returns count 0 and that error; both leave the whole streamer as
  it was, the buffer and the state of the store included, whatever the store's methods
  are: they are not called. No operation of the streamer clears the fault:
  \<^verbatim>\<open>Close\<close> returns it too, and a \<^verbatim>\<open>WriteCalibrations\<close> that returns leaves it recorded.
\<close>

theorem sticky_fault:
  "err b = Some e \<Longrightarrow>
     Flush W b = Inr (Some e, b) \<and>
     WriteCalibration W b c = Inr ((0, Some e), b) \<and>
     Close W b = Inr (Some e, b) \<and>
     (\<forall>p r b'. WriteCalibrations W b p = Inr (r, b') \<longrightarrow> err b' = Some e)"
  by (auto simp: Flush_def WriteCalibration_def Close_def dest: WriteCalibrations_keeps_fault)

text \<open>
  Three buffered records, a flush that the store fails, and the fault state it leaves:
  a second flush and a write of one record return the stored error and change nothing,
  the store's record of calls included.
\<close>

theorem sticky_fault_witness:
  "Flush scriptedWriter (threeBuffered (emptyStore\<lparr>writeReplies := [(0, Some storeDown)]\<rparr>))
     = Inr (Some storeDown, faulted) \<and>
   err faulted = Some storeDown \<and>
   Flush scriptedWriter faulted = Inr (Some storeDown, faulted) \<and>
   WriteCalibration scriptedWriter faulted (at 90) = Inr ((0, Some storeDown), faulted)"
  using sticky_fault [of faulted storeDown scriptedWriter "at 90"]
  by (simp add: Flush_def example_defs)

section \<open>A failed flush of the MealStreamer\<close>

text \<open>
  C4, as the code has it. When the open window of a MealStreamer is not empty and the
  store's batch write fails, \<^verbatim>\<open>Flush\<close> returns the nil pointer and the store's error: it
  yields no new streamer, so none that carries the window forward.
\<close>

theorem MealFlush_failure_is_terminal:
  "head b \<noteq> [] \<Longrightarrow>
   WriteMealBatch M (mwr b) (rev (head b)) (store wld) = ((w', Some e), st') \<Longrightarrow>
   MealFlush M b wld = Inr ((None, Some e), wld\<lparr>store := st'\<rparr>)"
  using ListToArrayOfMealReads_all[of "rev (head b)"]
  by (simp add: MealFlush_def ReverseList_def)

theorem MealFlush_failure_is_terminal_witness:
  "head twoMeals \<noteq> [] \<and>
   MealFlush scriptedMealWriter twoMeals
       (mealWorld (emptyStore\<lparr>writeReplies := [(0, Some storeDown)]\<rparr>))
     = Inr ((None, Some storeDown),
            mealWorld (emptyStore\<lparr>calls := [BatchWritten [at 0, at 30]]\<rparr>))"
  using MealFlush_failure_is_terminal
    [of twoMeals scriptedMealWriter "mealWorld (emptyStore\<lparr>writeReplies := [(0, Some storeDown)]\<rparr>)"
        "()" storeDown "emptyStore\<lparr>calls := [BatchWritten [at 0, at 30]]\<rparr>"]
  by (simp add: example_defs)

text \<open>
  C4 as stated fails: the window holds two meals, the store commits one of them and
  reports a failure, and the streamer that \<^verbatim>\<open>Flush\<close> returns is nil.
\<close>

theorem MealFlush_no_recovery_counterexample:
  "MealFlush scriptedMealWriter twoMeals
       (mealWorld (emptyStore\<lparr>writeReplies := [(1, Some storeDown)]\<rparr>))
     = Inr ((None, Some storeDown),
            mealWorld (emptyStore\<lparr>calls := [BatchWritten [at 0, at 30]]\<rparr>))"
  by (simp add: MealFlush_def ReverseList_def newMealStreamerDuration_def example_defs)

section \<open>Closing twice\<close>

text \<open>
  C7, as the code has it. CalibrationReadStreamer: after a \<^verbatim>\<open>Close\<close> that returned no
  error, a second \<^verbatim>\<open>Close\<close> submits no batch: all it does is call the downstream writer's
  own \<^verbatim>\<open>Flush\<close> again, and it returns what that call returns. MealStreamer: the same
  holds for a \<^verbatim>\<open>Close\<close> of the streamer that the first \<^verbatim>\<open>Close\<close> returned. The streamer
  on which the first \<^verbatim>\<open>Close\<close> was called keeps its window, and a second \<^verbatim>\<open>Close\<close> of that
  streamer submits the window to the store again.
\<close>

theorem second_close:
  "(Close W b = Inr (None, b1) \<longrightarrow>
      Close W b1 = (case FlushWriter W (wr b1) of (e, w') \<Rightarrow> Inr (e, b1\<lparr>wr := w'\<rparr>))) \<and>
   (MealClose M s wld = Inr ((Some g, None), wld1) \<longrightarrow>
      MealClose M g wld1 =
        (case FlushMealWriter M (mwr g) (store wld1) of
           ((innerWriter, Some e), st') \<Rightarrow>
              Inr ((Some (g\<lparr>mwr := innerWriter\<rparr>), Some e), wld1\<lparr>store := st'\<rparr>)
         | ((innerWriter, None), st') \<Rightarrow> Inr ((Some g, None), wld1\<lparr>store := st'\<rparr>))) \<and>
   (MealClose M s wld = Inr ((Some g, None), wld1) \<and> head s \<noteq> [] \<longrightarrow>
      MealClose M s wld1 =
        (case WriteMealBatch M (mwr s) (rev (head s)) (store wld1) of
           ((w1, Some e), st1) \<Rightarrow> Inr ((None, Some e), wld1\<lparr>store := st1\<rparr>)
         | ((w1, None), st1) \<Rightarrow>
             (case FlushMealWriter M w1 st1 of
                ((w2, Some e), st2) \<Rightarrow>
                  Inr ((Some \<lparr>head = [], tailVal = None, mwr = w2, md = md s\<rparr>, Some e),
                       wld1\<lparr>store := st2\<rparr>)
              | ((w2, None), st2) \<Rightarrow>
                  Inr ((Some \<lparr>head = [], tailVal = None, mwr = w1, md = md s\<rparr>, None),
                       wld1\<lparr>store := st2\<rparr>))))"
proof (intro conjI impI)
  assume a: "Close W b = Inr (None, b1)"
  from a have "n b1 = 0 \<and> err b1 = None"
    by (auto simp: Close_def Flush_def split: sum.splits prod.splits option.splits if_splits)
  then show "Close W b1 = (case FlushWriter W (wr b1) of (e, w') \<Rightarrow> Inr (e, b1\<lparr>wr := w'\<rparr>))"
    by (simp add: Close_def Flush_def)
next
  assume a: "MealClose M s wld = Inr ((Some g, None), wld1)"
  then have g: "head g = [] \<and> tailVal g = None"
    by (auto simp: MealClose_def MealFlush_def ReverseList_def ListToArrayOfMealReads_all
        newMealStreamerDuration_def
        split: sum.splits prod.splits option.splits if_splits)
  then show "MealClose M g wld1 =
        (case FlushMealWriter M (mwr g) (store wld1) of
           ((innerWriter, Some e), st') \<Rightarrow>
              Inr ((Some (g\<lparr>mwr := innerWriter\<rparr>), Some e), wld1\<lparr>store := st'\<rparr>)
         | ((innerWriter, None), st') \<Rightarrow> Inr ((Some g, None), wld1\<lparr>store := st'\<rparr>))"
    by (auto simp: MealClose_def MealFlush_def ReverseList_def newMealStreamerDuration_def
        split: prod.splits option.splits)
next
  assume "MealClose M s wld = Inr ((Some g, None), wld1) \<and> head s \<noteq> []"
  then have ne: "head s \<noteq> []" by simp
  then show "MealClose M s wld1 =
        (case WriteMealBatch M (mwr s) (rev (head s)) (store wld1) of
           ((w1, Some e), st1) \<Rightarrow> Inr ((None, Some e), wld1\<lparr>store := st1\<rparr>)
         | ((w1, None), st1) \<Rightarrow>
             (case FlushMealWriter M w1 st1 of
                ((w2, Some e), st2) \<Rightarrow>
                  Inr ((Some \<lparr>head = [], tailVal = None, mwr = w2, md = md s\<rparr>, Some e),
                       wld1\<lparr>store := st2\<rparr>)
              | ((w2, None), st2) \<Rightarrow>
                  Inr ((Some \<lparr>head = [], tailVal = None, mwr = w1, md = md s\<rparr>, None),
                       wld1\<lparr>store := st2\<rparr>)))"
    using ListToArrayOfMealReads_all[of "rev (head s)"]
    by (auto simp: MealClose_def MealFlush_def ReverseList_def newMealStreamerDuration_def
        split: prod.splits option.splits)
qed

text \<open>
  The theorem at work: three calibration reads and two meals are closed once; the second
  close of the calibration streamer, and of the meal streamer that the first close
  returned, adds one \<open>Flushed\<close> call to the store's record and no batch; the second close
  of the meal streamer that was closed first adds the batch again.
\<close>

theorem second_close_witness:
  "Close scriptedWriter (threeBuffered emptyStore)
     = Inr (None, (threeBuffered
          (emptyStore\<lparr>calls := [BatchWritten [at 0, at 10, at 20], Flushed]\<rparr>))\<lparr>n := 0\<rparr>) \<and>
   Close scriptedWriter ((threeBuffered
          (emptyStore\<lparr>calls := [BatchWritten [at 0, at 10, at 20], Flushed]\<rparr>))\<lparr>n := 0\<rparr>)
     = Inr (None, (threeBuffered
          (emptyStore\<lparr>calls := [BatchWritten [at 0, at 10, at 20], Flushed, Flushed]\<rparr>))\<lparr>n := 0\<rparr>) \<and>
   MealClose scriptedMealWriter twoMeals (mealWorld emptyStore)
     = Inr ((Some (NewMealStreamerDuration () hour), None),
            mealWorld (emptyStore\<lparr>calls := [BatchWritten [at 0, at 30], Flushed]\<rparr>)) \<and>
   MealClose scriptedMealWriter (NewMealStreamerDuration () hour)
         (mealWorld (emptyStore\<lparr>calls := [BatchWritten [at 0, at 30], Flushed]\<rparr>))
     = Inr ((Some (NewMealStreamerDuration () hour), None),
            mealWorld (emptyStore\<lparr>calls := [BatchWritten [at 0, at 30], Flushed, Flushed]\<rparr>)) \<and>
   MealClose scriptedMealWriter twoMeals
         (mealWorld (emptyStore\<lparr>calls := [BatchWritten [at 0, at 30], Flushed]\<rparr>))
     = Inr ((Some (NewMealStreamerDuration () hour), None),
            mealWorld (emptyStore\<lparr>calls :=
              [BatchWritten [at 0, at 30], Flushed, BatchWritten [at 0, at 30], Flushed]\<rparr>))"
  using second_close
    [of scriptedWriter "threeBuffered emptyStore"
        "(threeBuffered
          (emptyStore\<lparr>calls := [BatchWritten [at 0, at 10, at 20], Flushed]\<rparr>))\<lparr>n := 0\<rparr>"
        scriptedMealWriter twoMeals "mealWorld emptyStore" "NewMealStreamerDuration () hour"
        "mealWorld (emptyStore\<lparr>calls := [BatchWritten [at 0, at 30], Flushed]\<rparr>)"]
  by (simp add: Close_def Flush_def MealClose_def MealFlush_def ReverseList_def
      newMealStreamerDuration_def NewMealStreamerDuration_def example_defs)

text \<open>
  C7 as stated fails. The first close of three buffered calibration reads returns no
  error; the store's second flush fails, and the second close returns that error. Two
  meals are closed, and a second close of the same MealStreamer submits the two meals a
  second time.
\<close>

theorem second_close_counterexample:
  "Close scriptedWriter (threeBuffered (emptyStore\<lparr>flushReplies := [None, Some storeDown]\<rparr>))
     = Inr (None, (threeBuffered
          (emptyStore\<lparr>calls := [BatchWritten [at 0, at 10, at 20], Flushed],
                       flushReplies := [Some storeDown]\<rparr>))\<lparr>n := 0\<rparr>) \<and>
   Close scriptedWriter ((threeBuffered
          (emptyStore\<lparr>calls := [BatchWritten [at 0, at 10, at 20], Flushed],
                       flushReplies := [Some storeDown]\<rparr>))\<lparr>n := 0\<rparr>)
     = Inr (Some storeDown, (threeBuffered
          (emptyStore\<lparr>calls := [BatchWritten [at 0, at 10, at 20], Flushed, Flushed]\<rparr>))\<lparr>n := 0\<rparr>) \<and>
   MealClose scriptedMealWriter twoMeals (mealWorld emptyStore)
     = Inr ((Some (NewMealStreamerDuration () hour), None),
            mealWorld (emptyStore\<lparr>calls := [BatchWritten [at 0, at 30], Flushed]\<rparr>)) \<and>
   MealClose scriptedMealWriter twoMeals
         (mealWorld (emptyStore\<lparr>calls := [BatchWritten [at 0, at 30], Flushed]\<rparr>))
     = Inr ((Some (NewMealStreamerDuration () hour), None),
            mealWorld (emptyStore\<lparr>calls :=
              [BatchWritten [at 0, at 30], Flushed, BatchWritten [at 0, at 30], Flushed]\<rparr>))"
  by (simp add: Close_def Flush_def MealClose_def MealFlush_def ReverseList_def
      newMealStreamerDuration_def NewMealStreamerDuration_def example_defs)

section \<open>Empty input\<close>

text \<open>
  C9. \<^verbatim>\<open>WriteCalibrations\<close> on an empty slice, with no record in the buffer, reads
  \<^verbatim>\<open>p[0]\<close> and panics with an index out of range; nothing guards the read and no error
  is returned. (With records in the buffer the read is skipped, and the call returns
  count 0 and no error.)
\<close>

theorem empty_input_panics:
  "(n b = 0 \<longrightarrow> WriteCalibrations W b [] = Inl IndexOutOfRange) \<and>
   (0 < n b \<and> n b \<le> int (length (buf b)) \<longrightarrow> WriteCalibrations W b [] = Inr ((0, None), b))"
  by (auto simp: WriteCalibrations_def copyToBuf_def copy_def)

theorem empty_input_panics_witness:
  "n (NewCalibrationReadStreamerDuration 4 emptyStore hour) = 0 \<and>
   WriteCalibrations scriptedWriter (NewCalibrationReadStreamerDuration 4 emptyStore hour) []
     = Inl IndexOutOfRange \<and>
   WriteCalibrations scriptedWriter (threeBuffered emptyStore) []
     = Inr ((0, None), threeBuffered emptyStore)"
  using empty_input_panics [of "NewCalibrationReadStreamerDuration 4 emptyStore hour" scriptedWriter]
    empty_input_panics [of "threeBuffered emptyStore" scriptedWriter]
  by (simp add: NewCalibrationReadStreamerDuration_def threeBuffered_def)

section \<open>Grid-aligned anchoring of the CalibrationReadStreamer\<close>

text \<open>
  C5. A \<^verbatim>\<open>WriteCalibrations\<close> call on an empty, fault-free buffer groups its input as the
  spec's grid-aligned anchoring does (\<open>gridWindows\<close>): when every window fits the buffer
  and the store accepts the closed windows, the call returns the full count and no
  error, the store has been handed exactly the closed windows in order (each without
  the record that triggered its crossing), the buffer holds the last window, and the
  anchor is that window's; a \<^verbatim>\<open>Close\<close> then submits the last window and flushes the
  store. Every window of \<open>gridWindows\<close> starts at the anchor that is its first record's
  timestamp truncated down to a multiple of the duration, and all its records are less
  than the duration after the anchor: a record opens a new window exactly when its
  time minus the anchor reaches the duration.
\<close>

theorem grid_aligned_anchoring:
  assumes "n b = 0" and "err b = None" and "0 < d b" and "d b \<le> maxDuration" and "p \<noteq> []"
    and "\<forall>w \<in> set (gridWindows (d b) p). length (snd w) \<le> length (buf b)"
    and "storeAccepts W (wr b) (map snd (butlast (gridWindows (d b) p))) = Some w'"
  shows "(\<exists>b'. WriteCalibrations W b p = Inr ((int (length p), None), b') \<and>
           wr b' = w' \<and> (t b', pendingBatch b') = last (gridWindows (d b) p) \<and> err b' = None \<and>
           (\<forall>m w1. WriteCalibrationBatch W w' (pendingBatch b') = ((m, None), w1) \<and> 1 \<le> m \<longrightarrow>
               Close W b' = (case FlushWriter W w1 of (e, w2) \<Rightarrow> Inr (e, b'\<lparr>n := 0, wr := w2\<rparr>)))) \<and>
         (\<forall>(a, w) \<in> set (gridWindows (d b) p).
            w \<noteq> [] \<and> a = Truncate (GetTime (hd w)) (d b) \<and> d b dvd a \<and> a \<le> GetTime (hd w) \<and>
            (\<forall>x \<in> set w. GetTime x - a < d b))"
proof (intro conjI)
  from WriteCalibrations_refines_gridWindows[OF assms] obtain b' where
    b': "WriteCalibrations W b p = Inr ((int (length p), None), b')"
      "wr b' = w'" "(t b', pendingBatch b') = last (gridWindows (d b) p)"
      "err b' = None" "0 \<le> n b'" "n b' \<le> int (length (buf b'))"
    by blast
  have wne: "gridWindows (d b) p \<noteq> []"
    using assms(5) by (cases p) (simp_all add: gridWindows_def gridSplit_nonempty)
  then have "last (gridWindows (d b) p) \<in> set (gridWindows (d b) p)" by simp
  from gridWindows_no_empty[OF assms(3) this] b'(3) have "pendingBatch b' \<noteq> []"
    by (metis snd_conv)
  then have pos: "0 < n b'" using b'(5) by (cases "n b' = 0") (auto simp: pendingBatch_def)
  have "\<forall>m w1. WriteCalibrationBatch W w' (pendingBatch b') = ((m, None), w1) \<and> 1 \<le> m \<longrightarrow>
               Close W b' = (case FlushWriter W w1 of (e, w2) \<Rightarrow> Inr (e, b'\<lparr>n := 0, wr := w2\<rparr>))"
  proof (intro allI impI)
    fix m w1
    assume "WriteCalibrationBatch W w' (pendingBatch b') = ((m, None), w1) \<and> 1 \<le> m"
    then have "Flush W b' = Inr (None, b'\<lparr>n := 0, wr := w1\<rparr>)"
      using Flush_accepted[of b' W m w1] b'(2,4,6) pos by simp
    then show "Close W b' = (case FlushWriter W w1 of (e, w2) \<Rightarrow> Inr (e, b'\<lparr>n := 0, wr := w2\<rparr>))"
      by (simp add: Close_def split: prod.splits)
  qed
  with b' show "\<exists>b'. WriteCalibrations W b p = Inr ((int (length p), None), b') \<and>
           wr b' = w' \<and> (t b', pendingBatch b') = last (gridWindows (d b) p) \<and> err b' = None \<and>
           (\<forall>m w1. WriteCalibrationBatch W w' (pendingBatch b') = ((m, None), w1) \<and> 1 \<le> m \<longrightarrow>
               Close W b' = (case FlushWriter W w1 of (e, w2) \<Rightarrow> Inr (e, b'\<lparr>n := 0, wr := w2\<rparr>)))"
    by blast
next
  show "\<forall>(a, w) \<in> set (gridWindows (d b) p).
            w \<noteq> [] \<and> a = Truncate (GetTime (hd w)) (d b) \<and> d b dvd a \<and> a \<le> GetTime (hd w) \<and>
            (\<forall>x \<in> set w. GetTime x - a < d b)"
    using gridWindows_meaning[OF assms(3)] by blast
qed

text \<open>
  The spec's scenario: one hour, records at 00:00, 00:30, 01:00 and 01:30 written in
  one call. The call flushes 00:00 and 00:30 and leaves 01:00 and 01:30 buffered with
  the anchor at 01:00; \<^verbatim>\<open>Close\<close> then flushes these two.
\<close>

theorem grid_aligned_anchoring_witness:
  "WriteCalibrations scriptedWriter (NewCalibrationReadStreamerDuration 4 emptyStore hour)
       [at 0, at 30, at 60, at 90]
     = Inr ((4, None),
         \<lparr>buf = [at 60, at 90, zeroRecord, zeroRecord], n = 2,
          wr = emptyStore\<lparr>calls := [BatchWritten [at 0, at 30]]\<rparr>,
          t = hour, d = hour, err = None\<rparr>) \<and>
   Close scriptedWriter
         \<lparr>buf = [at 60, at 90, zeroRecord, zeroRecord], n = 2,
          wr = emptyStore\<lparr>calls := [BatchWritten [at 0, at 30]]\<rparr>,
          t = hour, d = hour, err = None\<rparr>
     = Inr (None,
         \<lparr>buf = [at 60, at 90, zeroRecord, zeroRecord], n = 0,
          wr = emptyStore\<lparr>calls := [BatchWritten [at 0, at 30], BatchWritten [at 60, at 90], Flushed]\<rparr>,
          t = hour, d = hour, err = None\<rparr>)"
  using grid_aligned_anchoring
    [of "NewCalibrationReadStreamerDuration 4 emptyStore hour" "[at 0, at 30, at 60, at 90]"
        scriptedWriter "emptyStore\<lparr>calls := [BatchWritten [at 0, at 30]]\<rparr>"]
  by (simp add: WriteCalibrations_def NewCalibrationReadStreamerDuration_def
      resetFirstReadOfBatch_def Truncate_def Sub_def maxDuration_def minDuration_def
      copyToBuf_def copy_def Flush_def Close_def gridWindows_def replicate_numeral example_defs)

section \<open>The capacity of the buffer\<close>

text \<open>
  C10. Whenever the records of one call all fall into one window and are more than the
  buffer has room for, \<^verbatim>\<open>WriteCalibrations\<close> on an empty buffer returns the length of the
  buffer, which is less than the length of the input, with a nil error; the buffer
  holds the first records only, the store is not called and no error is recorded: the
  remaining records are nowhere.
\<close>

theorem silent_capacity_truncation:
  assumes "n b = 0" and "p \<noteq> []"
    and "\<forall>c \<in> set p. Sub (GetTime c) (Truncate (GetTime (hd p)) (d b)) < d b"
    and "length (buf b) < length p"
  shows "\<exists>b'. WriteCalibrations W b p = Inr ((int (length (buf b)), None), b') \<and>
           int (length (buf b)) < int (length p) \<and>
           pendingBatch b' = take (length (buf b)) p \<and>
           wr b' = wr b \<and> err b' = err b"
  using WriteCalibrations_one_window[OF assms(1-3), of W] assms(4) by (auto simp: min_def)

text \<open>
  A buffer of two and three records in one hour: the call returns 2 and no error, and
  the \<^verbatim>\<open>Close\<close> that follows hands two records to the store.
\<close>

theorem silent_capacity_truncation_witness:
  "WriteCalibrations scriptedWriter (NewCalibrationReadStreamerDuration 2 emptyStore hour)
       [at 0, at 10, at 20]
     = Inr ((2, None),
         \<lparr>buf = [at 0, at 10], n = 2, wr = emptyStore, t = 0, d = hour, err = None\<rparr>) \<and>
   Close scriptedWriter
         \<lparr>buf = [at 0, at 10], n = 2, wr = emptyStore, t = 0, d = hour, err = None\<rparr>
     = Inr (None,
         \<lparr>buf = [at 0, at 10], n = 0,
          wr = emptyStore\<lparr>calls := [BatchWritten [at 0, at 10], Flushed]\<rparr>,
          t = 0, d = hour, err = None\<rparr>)"
  using silent_capacity_truncation
    [of "NewCalibrationReadStreamerDuration 2 emptyStore hour" "[at 0, at 10, at 20]" scriptedWriter]
  by (simp add: WriteCalibrations_def NewCalibrationReadStreamerDuration_def replicate_numeral
      resetFirstReadOfBatch_def Truncate_def Sub_def maxDuration_def minDuration_def
      copyToBuf_def copy_def Flush_def Close_def example_defs)

section \<open>Snapshots of the MealStreamer\<close>

text \<open>
  C8. A streamer \<open>s\<close> is a value here because the source never assigns to a field of an
  existing MealStreamer and the list behind \<^verbatim>\<open>head\<close> is immutable: \<^verbatim>\<open>WriteMeals\<close> and
  \<^verbatim>\<open>WriteMeal\<close> build new streamers and leave \<^verbatim>\<open>s.head\<close>, and with it the records that a
  flush of \<open>s\<close> would submit, as they are. The memory that a call does write is the
  cells of its own loop variables, new ones: every cell that existed before the call
  keeps its meal, so the tail value \<^verbatim>\<open>*s.tailVal\<close> that a caller holding \<open>s\<close> reads is the
  same before and after the call.
\<close>

theorem snapshot_immutable:
  assumes "WriteMeals M s p wld = Inr (r, wld') \<or> WriteMeal M s c wld = Inr (r, wld')"
    and "\<forall>a. tailVal s = Some a \<longrightarrow> a < length (cells wld)"
  shows "tailValue s wld' = tailValue s wld \<and>
         take (length (cells wld)) (cells wld') = cells wld"
proof -
  from assms(1) obtain q where run: "WriteMeals_loop M
       (newMealStreamerDuration (head s) (tailVal s) (mwr s) (md s)) q wld = Inr (r, wld')"
    unfolding WriteMeals_def WriteMeal_def by blast
  have pre: "take (length (cells wld)) (cells wld') = cells wld"
    using run by (rule WriteMeals_loop_frame)
  have "length (take (length (cells wld)) (cells wld')) = length (cells wld)"
    by (simp only: pre)
  then have len: "length (cells wld) \<le> length (cells wld')" by simp
  have "tailValue s wld' = tailValue s wld"
  proof (cases "tailVal s")
    case None
    then show ?thesis by (simp add: tailValue_def)
  next
    case (Some a)
    with assms(2) have a: "a < length (cells wld)" by simp
    then have "cells wld' ! a = take (length (cells wld)) (cells wld') ! a" by simp
    then have "cells wld' ! a = cells wld ! a" by (simp only: pre)
    with a len Some show ?thesis by (simp add: tailValue_def)
  qed
  with pre show ?thesis by simp
qed

text \<open>
  A streamer holding 00:00 and 00:30 receives 01:30 and 01:40 in one call: the call
  flushes the old window and opens a new one with a tail cell of its own; the tail
  value of the old streamer is still the meal of 00:00.
\<close>

theorem snapshot_immutable_witness:
  "WriteMeals scriptedMealWriter twoMeals [at 90, at 100] (mealWorld emptyStore)
     = Inr ((Some \<lparr>head = [at 100, at 90], tailVal = Some 2, mwr = (), md = hour\<rparr>, None),
            \<lparr>cells = [at 0, at 30, at 90, at 100],
             store = emptyStore\<lparr>calls := [BatchWritten [at 0, at 30]]\<rparr>\<rparr>) \<and>
   tailValue twoMeals (mealWorld emptyStore) = Some (at 0) \<and>
   tailValue twoMeals
       \<lparr>cells = [at 0, at 30, at 90, at 100],
        store = emptyStore\<lparr>calls := [BatchWritten [at 0, at 30]]\<rparr>\<rparr>
     = Some (at 0)"
  using snapshot_immutable
    [of scriptedMealWriter twoMeals "[at 90, at 100]" "mealWorld emptyStore"
        "(Some \<lparr>head = [at 100, at 90], tailVal = Some 2, mwr = (), md = hour\<rparr>, None)"
        "\<lparr>cells = [at 0, at 30, at 90, at 100],
          store = emptyStore\<lparr>calls := [BatchWritten [at 0, at 30]]\<rparr>\<rparr>"]
  by (simp add: meal_defs tailValue_def example_defs)

section \<open>First-arrival anchoring of the MealStreamer\<close>

text \<open>
  C6. A \<^verbatim>\<open>WriteMeals\<close> call on a new streamer groups its input as the spec's
  first-arrival anchoring does (\<open>arrivalWindows\<close>): when the store accepts the closed
  windows, the call returns a streamer and no error, the store has been handed exactly
  the closed windows in order (each without the record that triggered its crossing),
  the streamer holds the last window, and its tail cell holds that window's first
  record, whose timestamp, not truncated, is the anchor. Every window of
  \<open>arrivalWindows\<close> is anchored at the timestamp of its first record, and all its records
  are less than the duration after the anchor: a record opens a new window exactly when
  its time minus the anchor reaches the duration. A call on a streamer that holds an
  open window, with the window's first record in its tail cell, goes on from that
  window and that anchor in the same way.
\<close>

theorem first_arrival_anchoring:
  assumes "0 < dur" and "dur \<le> maxDuration" and "p \<noteq> []"
    and "mealStoreAccepts M w (store wld) (map snd (butlast (arrivalWindows dur p))) = Some (w', st')"
  shows "(\<exists>s' wld' a'. WriteMeals M (NewMealStreamerDuration w dur) p wld
             = Inr ((Some s', None), wld') \<and>
           tailVal s' = Some a' \<and> a' < length (cells wld') \<and>
           cells wld' ! a' = hd (rev (head s')) \<and>
           (GetTime (cells wld' ! a'), rev (head s')) = last (arrivalWindows dur p) \<and>
           mwr s' = w' \<and> store wld' = st') \<and>
         (\<forall>(a, w) \<in> set (arrivalWindows dur p).
            w \<noteq> [] \<and> a = GetTime (hd w) \<and> (\<forall>x \<in> set w. GetTime x - a < dur)) \<and>
         (\<forall>s a w2 st2.
            head s \<noteq> [] \<and> tailVal s = Some a \<and> a < length (cells wld) \<and>
            cells wld ! a = last (head s) \<and> md s = dur \<and>
            mealStoreAccepts M (mwr s) (store wld)
              (map snd (butlast (arrivalSplit dur (GetTime (cells wld ! a)) (rev (head s)) p)))
              = Some (w2, st2) \<longrightarrow>
            (\<exists>s' wld' a'. WriteMeals M s p wld = Inr ((Some s', None), wld') \<and>
               tailVal s' = Some a' \<and> a' < length (cells wld') \<and>
               cells wld' ! a' = hd (rev (head s')) \<and>
               (GetTime (cells wld' ! a'), rev (head s')) =
                  last (arrivalSplit dur (GetTime (cells wld ! a)) (rev (head s)) p) \<and>
               mwr s' = w2 \<and> store wld' = st2))"
proof (intro conjI allI impI)
  have dmin: "minDuration < dur" using assms(1) by (simp add: minDuration_def)
  from WriteMeals_refines_arrivalWindows[OF dmin assms(2-4)] obtain s' wld' a' where
    r: "WriteMeals M (NewMealStreamerDuration w dur) p wld = Inr ((Some s', None), wld')"
      "tailVal s' = Some a'" "a' < length (cells wld')" "cells wld' ! a' = last (head s')"
      "(GetTime (cells wld' ! a'), rev (head s')) = last (arrivalWindows dur p)"
      "mwr s' = w'" "store wld' = st'" "head s' \<noteq> []"
    by blast
  have "last (head s') = hd (rev (head s'))" using r(8) by (simp add: hd_rev)
  with r show "\<exists>s' wld' a'. WriteMeals M (NewMealStreamerDuration w dur) p wld
             = Inr ((Some s', None), wld') \<and>
           tailVal s' = Some a' \<and> a' < length (cells wld') \<and>
           cells wld' ! a' = hd (rev (head s')) \<and>
           (GetTime (cells wld' ! a'), rev (head s')) = last (arrivalWindows dur p) \<and>
           mwr s' = w' \<and> store wld' = st'"
    by auto
next
  show "\<forall>(a, w) \<in> set (arrivalWindows dur p).
            w \<noteq> [] \<and> a = GetTime (hd w) \<and> (\<forall>x \<in> set w. GetTime x - a < dur)"
    using arrivalWindows_meaning[OF assms(1)] by blast
next
  fix s :: "'a MealStreamer" and a w2 st2
  assume h: "head s \<noteq> [] \<and> tailVal s = Some a \<and> a < length (cells wld) \<and>
            cells wld ! a = last (head s) \<and> md s = dur \<and>
            mealStoreAccepts M (mwr s) (store wld)
              (map snd (butlast (arrivalSplit dur (GetTime (cells wld ! a)) (rev (head s)) p)))
              = Some (w2, st2)"
  from h have h1: "head s \<noteq> []" and h2: "tailVal s = Some a" and h3: "a < length (cells wld)"
    and h4: "cells wld ! a = last (head s)" and h5: "md s = dur"
    and h6: "mealStoreAccepts M (mwr s) (store wld)
      (map snd (butlast (arrivalSplit dur (GetTime (cells wld ! a)) (rev (head s)) p)))
      = Some (w2, st2)"
    by blast+
  have dmin: "minDuration < md s" using assms(1) h5 by (simp add: minDuration_def)
  have dmax: "md s \<le> maxDuration" using assms(2) h5 by simp
  have acc: "mealStoreAccepts M (mwr s) (store wld)
      (map snd (butlast (arrivalSplit (md s) (GetTime (cells wld ! a)) (rev (head s)) p)))
      = Some (w2, st2)"
    unfolding h5 by (rule h6)
  from WriteMeals_continues_window[OF h1 h2 h3 dmin dmax acc h4] obtain s' wld' a' where
    r: "WriteMeals M s p wld = Inr ((Some s', None), wld')"
      "tailVal s' = Some a'" "a' < length (cells wld')" "cells wld' ! a' = last (head s')"
      "(GetTime (cells wld' ! a'), rev (head s')) =
          last (arrivalSplit (md s) (GetTime (cells wld ! a)) (rev (head s)) p)"
      "mwr s' = w2" "store wld' = st2" "head s' \<noteq> []"
    by blast
  have "last (head s') = hd (rev (head s'))" using r(8) by (simp add: hd_rev)
  with r h5 show "\<exists>s' wld' a'. WriteMeals M s p wld = Inr ((Some s', None), wld') \<and>
               tailVal s' = Some a' \<and> a' < length (cells wld') \<and>
               cells wld' ! a' = hd (rev (head s')) \<and>
               (GetTime (cells wld' ! a'), rev (head s')) =
                  last (arrivalSplit dur (GetTime (cells wld ! a)) (rev (head s)) p) \<and>
               mwr s' = w2 \<and> store wld' = st2"
    by auto
qed

text \<open>
  One hour and meals at 00:15, 00:50, 01:10 and 02:10 in one call: the window anchored
  at 00:15 takes 01:10 (55 minutes after the anchor) and is flushed when 02:10 arrives.
  The spec's scenario, meals at 00:00, 00:30, 01:00 and 01:30: 00:00 and 00:30 are
  flushed when 01:00 arrives. A streamer holding 00:00 and 00:30 receives 00:50 and
  01:10: 00:50 joins the window anchored at 00:00, and 01:10 flushes the three.
\<close>

theorem first_arrival_anchoring_witness:
  "WriteMeals scriptedMealWriter (NewMealStreamerDuration () hour) [at 15, at 50, at 70, at 130]
       \<lparr>cells = [], store = emptyStore\<rparr>
     = Inr ((Some \<lparr>head = [at 130], tailVal = Some 3, mwr = (), md = hour\<rparr>, None),
            \<lparr>cells = [at 15, at 50, at 70, at 130],
             store = emptyStore\<lparr>calls := [BatchWritten [at 15, at 50, at 70]]\<rparr>\<rparr>) \<and>
   arrivalWindows hour [at 15, at 50, at 70, at 130]
     = [(15 * minute, [at 15, at 50, at 70]), (130 * minute, [at 130])] \<and>
   WriteMeals scriptedMealWriter (NewMealStreamerDuration () hour) [at 0, at 30, at 60, at 90]
       \<lparr>cells = [], store = emptyStore\<rparr>
     = Inr ((Some \<lparr>head = [at 90, at 60], tailVal = Some 2, mwr = (), md = hour\<rparr>, None),
            \<lparr>cells = [at 0, at 30, at 60, at 90],
             store = emptyStore\<lparr>calls := [BatchWritten [at 0, at 30]]\<rparr>\<rparr>) \<and>
   WriteMeals scriptedMealWriter twoMeals [at 50, at 70] (mealWorld emptyStore)
     = Inr ((Some \<lparr>head = [at 70], tailVal = Some 3, mwr = (), md = hour\<rparr>, None),
            \<lparr>cells = [at 0, at 30, at 50, at 70],
             store = emptyStore\<lparr>calls := [BatchWritten [at 0, at 30, at 50]]\<rparr>\<rparr>)"
  using first_arrival_anchoring
    [of hour "[at 15, at 50, at 70, at 130]" scriptedMealWriter "()"
        "\<lparr>cells = [], store = emptyStore\<rparr>" "()"
        "emptyStore\<lparr>calls := [BatchWritten [at 15, at 50, at 70]]\<rparr>"]
  by (simp add: meal_defs arrivalWindows_def example_defs)

section \<open>No loss, no duplication\<close>

text \<open>
  C1 does not hold for the CalibrationReadStreamer, whatever \<^verbatim>\<open>BUFFER_SIZE\<close> is and for
  every duration above \<^verbatim>\<open>BUFFER_SIZE\<close> nanoseconds: the \<^verbatim>\<open>BUFFER_SIZE + 1\<close> records at
  0, 1, ..., \<^verbatim>\<open>BUFFER_SIZE\<close> nanoseconds, strictly increasing and all in one window, are
  written in one call and closed over a store that commits every batch in full; no
  error is returned and the store has received the first \<^verbatim>\<open>BUFFER_SIZE\<close> of them: the
  last record is lost. (Where every window fits the buffer, the calibration records do
  arrive complete and in order, in the windows of \<open>gridWindows\<close>: lemma
  \<open>calibration_no_loss_when_windows_fit\<close>. The meals of a \<^verbatim>\<open>WriteMeals\<close> call on a new
  MealStreamer arrive complete and in order, in the windows of \<open>arrivalWindows\<close>: lemma
  \<open>meal_no_loss\<close>.)
\<close>

theorem no_loss_violated:
  assumes "int BUFFER_SIZE < dur" and "dur \<le> maxDuration"
  shows "\<exists>bs. calibrationRun BUFFER_SIZE dur (map tick [0..<Suc BUFFER_SIZE]) = Inr (None, bs) \<and>
              concat bs = map tick [0..<BUFFER_SIZE]"
proof -
  let ?b = "NewCalibrationReadStreamerDuration BUFFER_SIZE emptyStore dur"
  let ?p = "map tick [0..<Suc BUFFER_SIZE]"
  have b: "n ?b = 0" "d ?b = dur" "length (buf ?b) = BUFFER_SIZE" "wr ?b = emptyStore" "err ?b = None"
    by (simp_all add: NewCalibrationReadStreamerDuration_def)
  have pne: "?p \<noteq> []" by simp
  have hd: "GetTime (hd ?p) = 0" by (simp add: upt_conv_Cons tick_def del: upt_Suc)
  have dpos: "0 < dur" using assms(1) by simp
  have tr: "Truncate (GetTime (hd ?p)) (d ?b) = 0"
    unfolding hd using dpos by (simp add: Truncate_def NewCalibrationReadStreamerDuration_def)
  have within: "\<forall>c \<in> set ?p. Sub (GetTime c) (Truncate (GetTime (hd ?p)) (d ?b)) < d ?b"
  proof
    fix c assume "c \<in> set ?p"
    then obtain k where k: "c = tick k" "k \<le> BUFFER_SIZE" by auto
    then have "GetTime c = int k" by (simp add: tick_def)
    moreover have "minDuration \<le> int k" by (simp add: minDuration_def)
    ultimately have "Sub (GetTime c) 0 < dur"
      using k(2) assms(1,2) by (simp add: Sub_def)
    then show "Sub (GetTime c) (Truncate (GetTime (hd ?p)) (d ?b)) < d ?b"
      unfolding tr by (simp add: NewCalibrationReadStreamerDuration_def)
  qed
  from WriteCalibrations_one_window[OF b(1) pne within, of scriptedWriter] obtain b' where
    b': "WriteCalibrations scriptedWriter ?b ?p
           = Inr ((int (min (length (buf ?b)) (length ?p)), None), b')"
      "pendingBatch b' = take (length (buf ?b)) ?p"
      "n b' = int (min (length (buf ?b)) (length ?p))"
      "length (buf b') = length (buf ?b)" "wr b' = wr ?b" "err b' = err ?b"
    by blast
  have pb: "pendingBatch b' = map tick [0..<BUFFER_SIZE]"
    using b'(2) by (simp add: b(3) take_map del: upt_Suc)
  have nb: "0 \<le> n b'" "n b' \<le> int (length (buf b'))" using b'(3,4) by (simp_all add: b(3))
  from Close_scripted_after_write[of b'] b'(5,6) b(4,5) nb obtain b'' where
    c: "Close scriptedWriter b' = Inr (None, b'')" "concat (batches (wr b'')) = pendingBatch b'"
    by auto
  show ?thesis
    using b'(1) c pb by (simp add: calibrationRun_def)
qed

text \<open>
  A buffer of two and the records at 0, 1 and 2 nanoseconds: the store receives two
  records.
\<close>

theorem no_loss_violated_witness:
  "calibrationRun 2 hour [tick 0, tick 1, tick 2] = Inr (None, [[tick 0, tick 1]])"
proof -
  have h: "int 2 < hour" "hour \<le> maxDuration"
    by (simp_all add: hour_def minute_def maxDuration_def)
  have l: "map tick [0..<Suc 2] = [tick 0, tick 1, tick 2]"
    by (simp add: upt_rec numeral_2_eq_2)
  from no_loss_violated[OF h] obtain bs where
    bs: "calibrationRun 2 hour (map tick [0..<Suc 2]) = Inr (None, bs)" by blast
  have "calibrationRun 2 hour [tick 0, tick 1, tick 2] = Inr (None, [[tick 0, tick 1]])"
    by (simp add: calibrationRun_def batches_def calibration_defs tick_def example_defs)
  with bs l have "bs = [[tick 0, tick 1]]" by simp
  with bs l show ?thesis by simp
qed

end
